theory Spec2Isabelle
  imports Main "HOL-Library.Monad_Syntax"
begin

section \<open>The JavaScript operations the utilities call\<close>

text \<open>
  The two files \<^verbatim>\<open>timeUtils.ts\<close> (\<^verbatim>\<open>formatLastActivity\<close>) and the timezone
  utilities (\<^verbatim>\<open>formatLocalTime\<close>, \<^verbatim>\<open>formatLocalDateTime\<close> and their two
  wrappers) are pure functions over strings and \<^verbatim>\<open>Date\<close> objects. A \<^verbatim>\<open>Date\<close> is
  its time value: an integral number of milliseconds since the epoch, or NaN
  ("Invalid Date"). It is modelled as \<open>int option\<close>, \<open>None\<close> being NaN. The numbers
  that occur are integers: time values, of magnitude at most \<open>8.64 * 10 ^ 15\<close>, calendar
  fields, and differences of two time values. They are modelled as \<open>int\<close>; below
  \<open>2 ^ 53\<close> the arithmetic of doubles is that of the integers and
  \<^verbatim>\<open>Math.floor (a / b)\<close> is \<open>a div b\<close>.

  Strings are \<open>string\<close>: sequences of bytes, the UTF-8 form of the JavaScript string.
  Every character test of the source (\<^verbatim>\<open>includes ('T')\<close>, \<^verbatim>\<open>\d\<close>, the literal
  separators, the letters of AM and PM) concerns ASCII only and reads the same on
  bytes; \<^verbatim>\<open>\s\<close> is spelled out as the byte sequences of the white space it
  accepts.
\<close>

subsection \<open>Numbers to strings and back\<close>

definition isDigit :: "char \<Rightarrow> bool" where
  "isDigit c = (c \<in> set ''0123456789'')"

definition digitVal :: "char \<Rightarrow> int" where
  "digitVal c = int (of_char c) - 48"

definition digitChar :: "nat \<Rightarrow> char" where
  "digitChar n = ''0123456789'' ! n"

text \<open>\<^verbatim>\<open>parseInt\<close> on a string of decimal digits (the only strings it is given here).\<close>

definition parseInt :: "string \<Rightarrow> int" where
  "parseInt s = foldl (\<lambda>acc c. 10 * acc + digitVal c) 0 s"

fun natToString :: "nat \<Rightarrow> string" where
  "natToString n =
     (if n < 10 then [digitChar n] else natToString (n div 10) @ [digitChar (n mod 10)])"

declare natToString.simps [simp del]

text \<open>\<^verbatim>\<open>String (n)\<close> and \<^verbatim>\<open>`${n}`\<close> for an integral number.\<close>

definition numToString :: "int \<Rightarrow> string" where
  "numToString n = (if n < 0 then CHR ''-'' # natToString (nat (- n)) else natToString (nat n))"

definition padStart :: "nat \<Rightarrow> char \<Rightarrow> string \<Rightarrow> string" where
  "padStart n c s = replicate (n - length s) c @ s"

subsection \<open>Time values and calendar fields (ECMA-262, Date objects)\<close>

definition msPerDay :: int where "msPerDay = 86400000"
definition msPerHour :: int where "msPerHour = 3600000"
definition msPerMinute :: int where "msPerMinute = 60000"
definition msPerSecond :: int where "msPerSecond = 1000"

definition Day :: "int \<Rightarrow> int" where
  "Day t = t div msPerDay"

definition DaysInYear :: "int \<Rightarrow> int" where
  "DaysInYear y =
     (if y mod 4 \<noteq> 0 then 365
      else if y mod 100 \<noteq> 0 then 366
      else if y mod 400 \<noteq> 0 then 365
      else 366)"

definition DayFromYear :: "int \<Rightarrow> int" where
  "DayFromYear y =
     365 * (y - 1970) + (y - 1969) div 4 - (y - 1901) div 100 + (y - 1601) div 400"

text \<open>
  \<^verbatim>\<open>YearFromTime\<close> is "the largest integer \<open>y\<close> with \<open>TimeFromYear y \<le> t\<close>". The
  executable form estimates the year from the mean length of a year and corrects the
  estimate by at most one; \<open>yearFromDay_bounds\<close> below shows that it is that largest
  integer.
\<close>

definition yearFromDay :: "int \<Rightarrow> int" where
  "yearFromDay d =
     (let y = 1970 + (400 * d) div 146097
      in if d < DayFromYear y then y - 1
         else if DayFromYear (y + 1) \<le> d then y + 1
         else y)"

definition YearFromTime :: "int \<Rightarrow> int" where
  "YearFromTime t = yearFromDay (Day t)"

definition leapDays :: "int \<Rightarrow> int" where
  "leapDays y = (if DaysInYear y = 365 then 0 else 1)"

definition DayWithinYear :: "int \<Rightarrow> int" where
  "DayWithinYear t = Day t - DayFromYear (YearFromTime t)"

definition monthFromDayInYear :: "int \<Rightarrow> int \<Rightarrow> int" where
  "monthFromDayInYear leap dwy =
     (if dwy < 31 then 0
      else if dwy < 59 + leap then 1
      else if dwy < 90 + leap then 2
      else if dwy < 120 + leap then 3
      else if dwy < 151 + leap then 4
      else if dwy < 181 + leap then 5
      else if dwy < 212 + leap then 6
      else if dwy < 243 + leap then 7
      else if dwy < 273 + leap then 8
      else if dwy < 304 + leap then 9
      else if dwy < 334 + leap then 10
      else 11)"

text \<open>The day number within the year on which month \<open>m\<close> (0 to 11) starts.\<close>

definition monthStart :: "int \<Rightarrow> int \<Rightarrow> int" where
  "monthStart leap m =
     (if m = 0 then 0
      else if m = 1 then 31
      else if m = 2 then 59 + leap
      else if m = 3 then 90 + leap
      else if m = 4 then 120 + leap
      else if m = 5 then 151 + leap
      else if m = 6 then 181 + leap
      else if m = 7 then 212 + leap
      else if m = 8 then 243 + leap
      else if m = 9 then 273 + leap
      else if m = 10 then 304 + leap
      else 334 + leap)"

text \<open>The number of days of month \<open>m\<close> (0 to 11) in a year.\<close>

definition daysInMonth :: "int \<Rightarrow> int \<Rightarrow> int" where
  "daysInMonth year m =
     (if m = 1 then 28 + leapDays year
      else if m = 3 \<or> m = 5 \<or> m = 8 \<or> m = 10 then 30
      else 31)"

definition MonthFromTime :: "int \<Rightarrow> int" where
  "MonthFromTime t = monthFromDayInYear (leapDays (YearFromTime t)) (DayWithinYear t)"

definition DateFromTime :: "int \<Rightarrow> int" where
  "DateFromTime t =
     DayWithinYear t - monthStart (leapDays (YearFromTime t)) (MonthFromTime t) + 1"

definition HourFromTime :: "int \<Rightarrow> int" where
  "HourFromTime t = (t div msPerHour) mod 24"

definition MinFromTime :: "int \<Rightarrow> int" where
  "MinFromTime t = (t div msPerMinute) mod 60"

definition SecFromTime :: "int \<Rightarrow> int" where
  "SecFromTime t = (t div msPerSecond) mod 60"

definition MakeTime :: "int \<Rightarrow> int \<Rightarrow> int \<Rightarrow> int \<Rightarrow> int" where
  "MakeTime hour minute sec ms = hour * msPerHour + minute * msPerMinute + sec * msPerSecond + ms"

text \<open>
  \<^verbatim>\<open>MakeDay\<close> carries months outside 0 to 11 into the year and lets the day of the
  month run over: the day number of the first of the month, plus \<open>date - 1\<close>. (It is
  called with years of at most four digits or the year of the current time;
  \<open>TimeClip\<close> rejects what lies outside the range of time values.)
\<close>

definition MakeDay :: "int \<Rightarrow> int \<Rightarrow> int \<Rightarrow> int" where
  "MakeDay year month date =
     (let ym = year + month div 12; mn = month mod 12
      in DayFromYear ym + monthStart (leapDays ym) mn + date - 1)"

definition MakeDate :: "int \<Rightarrow> int \<Rightarrow> int" where
  "MakeDate day time = day * msPerDay + time"

definition TimeClip :: "int \<Rightarrow> int option" where
  "TimeClip time = (if \<bar>time\<bar> > 8640000000000000 then None else Some time)"

text \<open>\<^verbatim>\<open>Date.UTC\<close>: a year from 0 to 99 means 1900 plus that year.\<close>

definition MakeFullYear :: "int \<Rightarrow> int" where
  "MakeFullYear y = (if 0 \<le> y \<and> y \<le> 99 then 1900 + y else y)"

definition Date_UTC :: "int \<Rightarrow> int \<Rightarrow> int \<Rightarrow> int \<Rightarrow> int \<Rightarrow> int \<Rightarrow> int option" where
  "Date_UTC year month date hours minutes seconds =
     TimeClip (MakeDate (MakeDay (MakeFullYear year) month date) (MakeTime hours minutes seconds 0))"

subsection \<open>The environment: clock, time zone, date parser, locale rendering\<close>

text \<open>
  What the source reads from its environment is a parameter of the model:
  \<^item> \<open>dateParse\<close>: the time value of \<^verbatim>\<open>new Date (s)\<close> for a string, \<open>None\<close> for an
    invalid date (outside the ISO format the parsing is the engine's own);
  \<^item> \<open>currentTime\<close>: the time value of \<^verbatim>\<open>new Date ()\<close>;
  \<^item> \<open>localTZA\<close>: the offset of the local zone from UTC, in milliseconds, at an instant;
  \<^item> \<open>toLocaleTimeString\<close>: \<^verbatim>\<open>toLocaleTimeString ('en-US', {hour: '2-digit', minute:
    '2-digit', hour12: true})\<close> of a valid date;
  \<^item> \<open>toLocaleString\<close>: \<^verbatim>\<open>toLocaleString ('en-US', {month: 'short', day: 'numeric', year:
    ..., hour: 'numeric', minute: '2-digit', hour12: true})\<close> of a valid date, the flag
    telling whether \<^verbatim>\<open>year\<close> is \<^verbatim>\<open>'numeric'\<close> (otherwise \<^verbatim>\<open>undefined\<close>).
  The two locale renderings go through the internationalisation library, which may
  raise; the source wraps them in \<^verbatim>\<open>try\<close>/\<^verbatim>\<open>catch\<close>.
\<close>

datatype jsError = RangeError | TypeError

record runtime =
  dateParse :: "string \<Rightarrow> int option"
  currentTime :: int
  localTZA :: "int \<Rightarrow> int"
  toLocaleTimeString :: "int \<Rightarrow> jsError + string"
  toLocaleString :: "int \<Rightarrow> bool \<Rightarrow> jsError + string"

definition LocalTime :: "runtime \<Rightarrow> int \<Rightarrow> int" where
  "LocalTime rt t = t + localTZA rt t"

definition getFullYear :: "runtime \<Rightarrow> int \<Rightarrow> int" where
  "getFullYear rt t = YearFromTime (LocalTime rt t)"

definition getMonth :: "runtime \<Rightarrow> int \<Rightarrow> int" where
  "getMonth rt t = MonthFromTime (LocalTime rt t)"

definition getDate :: "runtime \<Rightarrow> int \<Rightarrow> int" where
  "getDate rt t = DateFromTime (LocalTime rt t)"

definition getHours :: "runtime \<Rightarrow> int \<Rightarrow> int" where
  "getHours rt t = HourFromTime (LocalTime rt t)"

definition getMinutes :: "runtime \<Rightarrow> int \<Rightarrow> int" where
  "getMinutes rt t = MinFromTime (LocalTime rt t)"

definition getSeconds :: "runtime \<Rightarrow> int \<Rightarrow> int" where
  "getSeconds rt t = SecFromTime (LocalTime rt t)"

definition getUTCFullYear :: "int \<Rightarrow> int" where
  "getUTCFullYear t = YearFromTime t"

definition getUTCMonth :: "int \<Rightarrow> int" where
  "getUTCMonth t = MonthFromTime t"

definition getUTCDate :: "int \<Rightarrow> int" where
  "getUTCDate t = DateFromTime t"

subsection \<open>Strings and the four regular expressions\<close>

definition includes_js :: "string \<Rightarrow> char \<Rightarrow> bool" where
  "includes_js s c = (c \<in> set s)"

text \<open>
  \<^verbatim>\<open>toUpperCase\<close>, on the ASCII letters (it is applied to the captured AM or PM only).
\<close>

definition upperChar :: "char \<Rightarrow> char" where
  "upperChar c =
     (let n = (of_char c :: nat) in if 97 \<le> n \<and> n \<le> 122 then char_of (n - 32) else c)"

definition toUpperCase :: "string \<Rightarrow> string" where
  "toUpperCase s = map upperChar s"

text \<open>
  A pattern is run at the front of a string and gives what it captured and the rest of
  the string. \<open>digits n\<close> is \<^verbatim>\<open>(\d{n})\<close>, \<open>lit c\<close> a literal character.
\<close>

definition digits :: "nat \<Rightarrow> string \<Rightarrow> (string \<times> string) option" where
  "digits n s =
     (if n \<le> length s \<and> list_all isDigit (take n s) then Some (take n s, drop n s) else None)"

definition lit :: "char \<Rightarrow> string \<Rightarrow> string option" where
  "lit c s = (case s of [] \<Rightarrow> None | x # r \<Rightarrow> if x = c then Some r else None)"

text \<open>
  \<^verbatim>\<open>\s\<close>: the white space and line terminators of ECMA-262 (U+0009 to U+000D, U+0020,
  U+00A0, U+1680, U+2000 to U+200A, U+2028, U+2029, U+202F, U+205F, U+3000, U+FEFF), in
  UTF-8.
\<close>

definition whiteSpace :: "string list" where
  "whiteSpace =
     [[CHR 0x09], [CHR 0x0A], [CHR 0x0B], [CHR 0x0C], [CHR 0x0D], [CHR 0x20],
      [CHR 0xC2, CHR 0xA0], [CHR 0xE1, CHR 0x9A, CHR 0x80],
      [CHR 0xE2, CHR 0x80, CHR 0x80], [CHR 0xE2, CHR 0x80, CHR 0x81],
      [CHR 0xE2, CHR 0x80, CHR 0x82], [CHR 0xE2, CHR 0x80, CHR 0x83],
      [CHR 0xE2, CHR 0x80, CHR 0x84], [CHR 0xE2, CHR 0x80, CHR 0x85],
      [CHR 0xE2, CHR 0x80, CHR 0x86], [CHR 0xE2, CHR 0x80, CHR 0x87],
      [CHR 0xE2, CHR 0x80, CHR 0x88], [CHR 0xE2, CHR 0x80, CHR 0x89],
      [CHR 0xE2, CHR 0x80, CHR 0x8A], [CHR 0xE2, CHR 0x80, CHR 0xA8],
      [CHR 0xE2, CHR 0x80, CHR 0xA9], [CHR 0xE2, CHR 0x80, CHR 0xAF],
      [CHR 0xE2, CHR 0x81, CHR 0x9F], [CHR 0xE3, CHR 0x80, CHR 0x80],
      [CHR 0xEF, CHR 0xBB, CHR 0xBF]]"

definition space :: "string \<Rightarrow> string option" where
  "space s =
     (case find (\<lambda>w. take (length w) s = w) whiteSpace of
        None \<Rightarrow> None
      | Some w \<Rightarrow> Some (drop (length w) s))"

text \<open>\<^verbatim>\<open>(AM|PM)\<close> under the flag \<^verbatim>\<open>i\<close>.\<close>

definition amPm :: "string \<Rightarrow> (string \<times> string) option" where
  "amPm s =
     (case s of
        a # m # r \<Rightarrow>
          if (a = CHR ''A'' \<or> a = CHR ''a'' \<or> a = CHR ''P'' \<or> a = CHR ''p'')
             \<and> (m = CHR ''M'' \<or> m = CHR ''m'')
          then Some ([a, m], r) else None
      | _ \<Rightarrow> None)"

text \<open>
  \<^verbatim>\<open>(\d{4})-(\d{2})-(\d{2}) (\d{2}):(\d{2}):(\d{2})\<close> at the front of a string: the
  match array (the matched text, then the six groups) and the rest of the string.
\<close>

definition sqlPattern :: "string \<Rightarrow> (string list \<times> string) option" where
  "sqlPattern s =
     do {
       (g1, r) \<leftarrow> digits 4 s;
       r \<leftarrow> lit CHR ''-'' r;
       (g2, r) \<leftarrow> digits 2 r;
       r \<leftarrow> lit CHR ''-'' r;
       (g3, r) \<leftarrow> digits 2 r;
       r \<leftarrow> lit CHR '' '' r;
       (g4, r) \<leftarrow> digits 2 r;
       r \<leftarrow> lit CHR '':'' r;
       (g5, r) \<leftarrow> digits 2 r;
       r \<leftarrow> lit CHR '':'' r;
       (g6, r) \<leftarrow> digits 2 r;
       Some ([take (length s - length r) s, g1, g2, g3, g4, g5, g6], r)
     }"

text \<open>
  \<^verbatim>\<open>(\d{1,2}):(\d{2})\s?(AM|PM)\<close> at the front of a string, followed by \<^verbatim>\<open>$\<close> when
  \<open>toEnd\<close> is set. The two greedy quantifiers try the longer alternative first and
  fall back to the shorter one when the rest of the pattern fails.
\<close>

definition clockTail :: "bool \<Rightarrow> string \<Rightarrow> (string \<times> string) option" where
  "clockTail toEnd s =
     do {
       (g3, r) \<leftarrow> amPm s;
       if toEnd \<and> r \<noteq> [] then None else Some (g3, r)
     }"

definition clockPatternFrom ::
  "bool \<Rightarrow> string \<Rightarrow> string \<Rightarrow> string \<Rightarrow> (string list \<times> string) option" where
  "clockPatternFrom toEnd s g1 r0 =
     do {
       r \<leftarrow> lit CHR '':'' r0;
       (g2, r) \<leftarrow> digits 2 r;
       (g3, r) \<leftarrow>
         (case space r \<bind> clockTail toEnd of
            Some m \<Rightarrow> Some m
          | None \<Rightarrow> clockTail toEnd r);
       Some ([take (length s - length r) s, g1, g2, g3], r)
     }"

definition clockPattern :: "bool \<Rightarrow> string \<Rightarrow> (string list \<times> string) option" where
  "clockPattern toEnd s =
     (case digits 2 s \<bind> (\<lambda>(g1, r). clockPatternFrom toEnd s g1 r) of
        Some m \<Rightarrow> Some m
      | None \<Rightarrow> digits 1 s \<bind> (\<lambda>(g1, r). clockPatternFrom toEnd s g1 r))"

text \<open>
  \<^verbatim>\<open>s.match (re)\<close> for a pattern without \<^verbatim>\<open>^\<close>: the match at the leftmost position
  where the pattern matches, \<open>None\<close> for \<^verbatim>\<open>null\<close>.
\<close>

fun search :: "(string \<Rightarrow> ('a \<times> string) option) \<Rightarrow> string \<Rightarrow> 'a option" where
  "search p [] = map_option fst (p [])"
| "search p (c # cs) =
     (case p (c # cs) of Some m \<Rightarrow> Some (fst m) | None \<Rightarrow> search p cs)"

text \<open>\<^verbatim>\<open>timestamp.match (/^\d{4}-\d{2}-\d{2} \d{2}:\d{2}:\d{2}$/)\<close>, as a truth value.\<close>

definition matchesSqlShape :: "string \<Rightarrow> bool" where
  "matchesSqlShape s = (case sqlPattern s of Some (parts, r) \<Rightarrow> r = [] | None \<Rightarrow> False)"

text \<open>\<^verbatim>\<open>timestamp.match (/(\d{4})-(\d{2})-(\d{2}) (\d{2}):(\d{2}):(\d{2})/)\<close>\<close>

definition matchSqlParts :: "string \<Rightarrow> string list option" where
  "matchSqlParts s = search sqlPattern s"

text \<open>\<^verbatim>\<open>timestamp.match (/^\d{1,2}:\d{2}\s?(AM|PM)$/i)\<close>, as a truth value.\<close>

definition matchesClockShape :: "string \<Rightarrow> bool" where
  "matchesClockShape s = (clockPattern True s \<noteq> None)"

text \<open>\<^verbatim>\<open>timestamp.match (/(\d{1,2}):(\d{2})\s?(AM|PM)/i)\<close>\<close>

definition matchClockParts :: "string \<Rightarrow> string list option" where
  "matchClockParts s = search (clockPattern False) s"

section \<open>timeUtils.ts: formatLastActivity\<close>

text \<open>\<^verbatim>\<open>`${n} unit${n !== 1 ? 's' : ''} ago`\<close>\<close>

definition agoPhrase :: "int \<Rightarrow> string \<Rightarrow> string" where
  "agoPhrase n unit = numToString n @ '' '' @ unit @ (if n \<noteq> 1 then ''s'' else '''') @ '' ago''"

text \<open>
  The part of \<^verbatim>\<open>formatLastActivity\<close> after the date is built: the validity check, the
  elapsed time and the bands.
\<close>

definition relativeTimeOf :: "runtime \<Rightarrow> string \<Rightarrow> int option \<Rightarrow> jsError + string" where
  "relativeTimeOf rt lastActivityStr lastActivityDate =
     (case lastActivityDate of
        None \<Rightarrow> Inr lastActivityStr
      | Some time \<Rightarrow>
          (let now = currentTime rt;
               diffMs = now - time;
               diffSeconds = diffMs div 1000;
               diffMinutes = diffSeconds div 60;
               diffHours = diffMinutes div 60;
               diffDays = diffHours div 24
           in if diffSeconds < 60 then
                (if diffSeconds \<le> 5 then Inr ''Just now''
                 else Inr (agoPhrase diffSeconds ''second''))
              else if diffMinutes < 60 then Inr (agoPhrase diffMinutes ''minute'')
              else if diffHours < 24 then Inr (agoPhrase diffHours ''hour'')
              else if diffDays \<le> 2 then Inr (agoPhrase diffDays ''day'')
              else toLocaleString rt time (getFullYear rt time \<noteq> getFullYear rt now)))"

text \<open>
  The body of the \<^verbatim>\<open>try\<close> block: \<open>Inl\<close> is an exception raised inside it, \<open>Inr\<close> the
  value returned.
\<close>

definition formatLastActivity_try :: "runtime \<Rightarrow> string \<Rightarrow> jsError + string" where
  "formatLastActivity_try rt lastActivityStr =
     (let lastActivityDate =
            (if includes_js lastActivityStr CHR ''T'' \<or> includes_js lastActivityStr CHR ''Z''
             then dateParse rt lastActivityStr
             else dateParse rt lastActivityStr)
      in relativeTimeOf rt lastActivityStr lastActivityDate)"

definition formatLastActivity :: "runtime \<Rightarrow> string \<Rightarrow> string" where
  "formatLastActivity rt lastActivityStr =
     (if lastActivityStr = '''' \<or> lastActivityStr = ''Unknown'' \<or> lastActivityStr = ''Never''
      then ''Never''
      else case formatLastActivity_try rt lastActivityStr of
             Inl error \<Rightarrow> lastActivityStr
           | Inr result \<Rightarrow> result)"

text \<open>
  The simplified version the specification compares with: every input that passes the
  guard is parsed with the general-purpose constructor, with no test for \<^verbatim>\<open>T\<close> or
  \<^verbatim>\<open>Z\<close>.
\<close>

definition formatLastActivity_simplified :: "runtime \<Rightarrow> string \<Rightarrow> string" where
  "formatLastActivity_simplified rt lastActivityStr =
     (if lastActivityStr = '''' \<or> lastActivityStr = ''Unknown'' \<or> lastActivityStr = ''Never''
      then ''Never''
      else case relativeTimeOf rt lastActivityStr (dateParse rt lastActivityStr) of
             Inl error \<Rightarrow> lastActivityStr
           | Inr result \<Rightarrow> result)"

section \<open>The timezone utilities: formatLocalTime, formatLocalDateTime and the wrappers\<close>

text \<open>An argument of type \<^verbatim>\<open>string | null | undefined\<close>.\<close>

datatype timestampArg = Null | Undefined | Str string

text \<open>
  The end of \<^verbatim>\<open>formatLocalTime\<close>, common to its four branches: the validity check and
  the rendering of the local clock time.
\<close>

definition localTimeOf :: "runtime \<Rightarrow> string \<Rightarrow> int option \<Rightarrow> jsError + string" where
  "localTimeOf rt timestamp date =
     (case date of
        None \<Rightarrow> Inr timestamp
      | Some time \<Rightarrow> toLocaleTimeString rt time)"

definition formatLocalTime_try :: "runtime \<Rightarrow> string \<Rightarrow> jsError + string" where
  "formatLocalTime_try rt timestamp =
     (if includes_js timestamp CHR ''T'' \<or> includes_js timestamp CHR ''Z'' then
        localTimeOf rt timestamp (dateParse rt timestamp)
      else if matchesSqlShape timestamp then
        (case matchSqlParts timestamp of
           Some parts \<Rightarrow>
             localTimeOf rt timestamp
               (Date_UTC (parseInt (parts ! 1)) (parseInt (parts ! 2) - 1) (parseInt (parts ! 3))
                  (parseInt (parts ! 4)) (parseInt (parts ! 5)) (parseInt (parts ! 6)))
         | None \<Rightarrow> Inr timestamp)
      else if matchesClockShape timestamp then
        (let now = currentTime rt
         in case matchClockParts timestamp of
              Some timeMatch \<Rightarrow>
                (let hours = parseInt (timeMatch ! 1);
                     minutes = parseInt (timeMatch ! 2);
                     period = toUpperCase (timeMatch ! 3);
                     hours = (if period = ''PM'' \<and> hours \<noteq> 12 then hours + 12 else hours);
                     hours = (if period = ''AM'' \<and> hours = 12 then 0 else hours)
                 in localTimeOf rt timestamp
                      (Date_UTC (getUTCFullYear now) (getUTCMonth now) (getUTCDate now)
                         hours minutes 0))
            | None \<Rightarrow> Inr timestamp)
      else localTimeOf rt timestamp (dateParse rt timestamp))"

definition formatLocalTime :: "runtime \<Rightarrow> timestampArg \<Rightarrow> string" where
  "formatLocalTime rt arg =
     (case arg of
        Null \<Rightarrow> ''Unknown''
      | Undefined \<Rightarrow> ''Unknown''
      | Str timestamp \<Rightarrow>
          if timestamp = '''' \<or> timestamp = ''Unknown'' \<or> timestamp = ''Never''
             \<or> timestamp = ''Recent''
          then (if timestamp = '''' then ''Unknown'' else timestamp)
          else (case formatLocalTime_try rt timestamp of
                  Inl error \<Rightarrow> timestamp
                | Inr result \<Rightarrow> result))"

text \<open>
  The end of \<^verbatim>\<open>formatLocalDateTime\<close>: the validity check and the rendering from the
  local calendar fields.
\<close>

definition localDateTimeOf :: "runtime \<Rightarrow> string \<Rightarrow> int option \<Rightarrow> jsError + string" where
  "localDateTimeOf rt timestamp date =
     (case date of
        None \<Rightarrow> Inr timestamp
      | Some time \<Rightarrow>
          (let year = getFullYear rt time;
               month = padStart 2 CHR ''0'' (numToString (getMonth rt time + 1));
               day = padStart 2 CHR ''0'' (numToString (getDate rt time));
               hours = padStart 2 CHR ''0'' (numToString (getHours rt time));
               minutes = padStart 2 CHR ''0'' (numToString (getMinutes rt time));
               seconds = padStart 2 CHR ''0'' (numToString (getSeconds rt time))
           in Inr (numToString year @ ''-'' @ month @ ''-'' @ day @ '' '' @ hours @ '':''
                   @ minutes @ '':'' @ seconds)))"

definition formatLocalDateTime_try :: "runtime \<Rightarrow> string \<Rightarrow> jsError + string" where
  "formatLocalDateTime_try rt timestamp =
     (if includes_js timestamp CHR ''T'' \<or> includes_js timestamp CHR ''Z'' then
        localDateTimeOf rt timestamp (dateParse rt timestamp)
      else if matchesSqlShape timestamp then
        (case matchSqlParts timestamp of
           Some parts \<Rightarrow>
             localDateTimeOf rt timestamp
               (Date_UTC (parseInt (parts ! 1)) (parseInt (parts ! 2) - 1) (parseInt (parts ! 3))
                  (parseInt (parts ! 4)) (parseInt (parts ! 5)) (parseInt (parts ! 6)))
         | None \<Rightarrow> Inr timestamp)
      else localDateTimeOf rt timestamp (dateParse rt timestamp))"

definition formatLocalDateTime :: "runtime \<Rightarrow> timestampArg \<Rightarrow> string" where
  "formatLocalDateTime rt arg =
     (case arg of
        Null \<Rightarrow> ''Unknown''
      | Undefined \<Rightarrow> ''Unknown''
      | Str timestamp \<Rightarrow>
          if timestamp = '''' \<or> timestamp = ''Unknown'' \<or> timestamp = ''Never''
          then (if timestamp = '''' then ''Unknown'' else timestamp)
          else (case formatLocalDateTime_try rt timestamp of
                  Inl error \<Rightarrow> timestamp
                | Inr result \<Rightarrow> result))"

definition formatScreenshotTime :: "runtime \<Rightarrow> timestampArg \<Rightarrow> string" where
  "formatScreenshotTime rt timestamp = formatLocalDateTime rt timestamp"

definition formatActivityTime :: "runtime \<Rightarrow> timestampArg \<Rightarrow> string" where
  "formatActivityTime rt timestamp = formatLocalTime rt timestamp"

section \<open>A sample environment\<close>

text \<open>
  A concrete environment on which the theorems below are instantiated: the local zone is
  UTC, the date parser accepts the ISO form \<^verbatim>\<open>YYYY-MM-DDTHH:mm:ssZ\<close> with fields in
  range and nothing else, and the two locale renderings write an en-US clock time and
  date in the plainest way.
\<close>

definition sampleParse :: "string \<Rightarrow> int option" where
  "sampleParse s =
     do {
       (y, r) \<leftarrow> digits 4 s;
       r \<leftarrow> lit CHR ''-'' r;
       (mo, r) \<leftarrow> digits 2 r;
       r \<leftarrow> lit CHR ''-'' r;
       (d, r) \<leftarrow> digits 2 r;
       r \<leftarrow> lit CHR ''T'' r;
       (h, r) \<leftarrow> digits 2 r;
       r \<leftarrow> lit CHR '':'' r;
       (mi, r) \<leftarrow> digits 2 r;
       r \<leftarrow> lit CHR '':'' r;
       (se, r) \<leftarrow> digits 2 r;
       r \<leftarrow> lit CHR ''Z'' r;
       if r = [] \<and> 1 \<le> parseInt mo \<and> parseInt mo \<le> 12 \<and> 1 \<le> parseInt d
          \<and> parseInt d \<le> daysInMonth (parseInt y) (parseInt mo - 1)
          \<and> parseInt h \<le> 23 \<and> parseInt mi \<le> 59 \<and> parseInt se \<le> 59
       then TimeClip (MakeDate (MakeDay (parseInt y) (parseInt mo - 1) (parseInt d))
                        (MakeTime (parseInt h) (parseInt mi) (parseInt se) 0))
       else None
     }"

definition sampleClock :: "bool \<Rightarrow> int \<Rightarrow> string" where
  "sampleClock twoDigitHour t =
     (let h = HourFromTime t;
          h12 = (if h mod 12 = 0 then 12 else h mod 12);
          hh = numToString h12
      in (if twoDigitHour then padStart 2 CHR ''0'' hh else hh) @ '':''
         @ padStart 2 CHR ''0'' (numToString (MinFromTime t))
         @ (if h < 12 then '' AM'' else '' PM''))"

definition monthShort :: "string list" where
  "monthShort =
     [''Jan'', ''Feb'', ''Mar'', ''Apr'', ''May'', ''Jun'',
      ''Jul'', ''Aug'', ''Sep'', ''Oct'', ''Nov'', ''Dec'']"

definition sampleDate :: "int \<Rightarrow> bool \<Rightarrow> string" where
  "sampleDate t withYear =
     monthShort ! nat (MonthFromTime t) @ '' '' @ numToString (DateFromTime t)
     @ (if withYear then '', '' @ numToString (YearFromTime t) else '''')
     @ '', '' @ sampleClock False t"

definition sampleRuntime :: "int \<Rightarrow> runtime" where
  "sampleRuntime now =
     \<lparr> dateParse = sampleParse,
       currentTime = now,
       localTZA = (\<lambda>t. 0),
       toLocaleTimeString = (\<lambda>t. Inr (sampleClock True t)),
       toLocaleString = (\<lambda>t withYear. Inr (sampleDate t withYear)) \<rparr>"

section \<open>Calendar arithmetic\<close>

lemma div_succ_int:
  fixes a k :: int
  assumes "0 < k"
  shows "(a + 1) div k = a div k + (if (a + 1) mod k = 0 then 1 else 0)"
proof -
  define q where "q = a div k"
  define r where "r = a mod k"
  have a: "a = q * k + r" by (simp add: q_def r_def)
  have r: "0 \<le> r" "r < k" using assms by (simp_all add: r_def)
  show ?thesis
  proof (cases "r + 1 = k")
    case True
    then have "a + 1 = (q + 1) * k" using a by (simp add: algebra_simps)
    then show ?thesis using assms by (simp add: q_def[symmetric])
  next
    case False
    then have lt: "r + 1 < k" using r by simp
    have e: "a + 1 = q * k + (r + 1)" using a by simp
    have d: "(a + 1) div k = q" unfolding e using r lt by (simp add: div_pos_pos_trivial)
    have m: "(a + 1) mod k = r + 1" unfolding e using r lt by (simp add: mod_pos_pos_trivial)
    show ?thesis using d m r by (simp add: q_def[symmetric])
  qed
qed

lemma div_bounds_int:
  fixes a k :: int
  assumes "0 < k"
  shows "k * (a div k) \<le> a" and "a < k * (a div k) + k"
proof -
  have "a = k * (a div k) + a mod k" by simp
  moreover have "0 \<le> a mod k" "a mod k < k" using assms by simp_all
  ultimately show "k * (a div k) \<le> a" and "a < k * (a div k) + k" by linarith+
qed

lemma DayFromYear_est:
  "400 * DayFromYear y \<le> 146097 * (y - 1970) + 589"
  "146097 * (y - 1970) - 506 \<le> 400 * DayFromYear y"
proof -
  define q4 where "q4 = (y - 1969) div 4"
  define q100 where "q100 = (y - 1901) div 100"
  define q400 where "q400 = (y - 1601) div 400"
  have a: "4 * q4 \<le> y - 1969" "y - 1969 < 4 * q4 + 4"
    unfolding q4_def by (rule div_bounds_int, simp)+
  have b: "100 * q100 \<le> y - 1901" "y - 1901 < 100 * q100 + 100"
    unfolding q100_def by (rule div_bounds_int, simp)+
  have c: "400 * q400 \<le> y - 1601" "y - 1601 < 400 * q400 + 400"
    unfolding q400_def by (rule div_bounds_int, simp)+
  have d: "DayFromYear y = 365 * (y - 1970) + q4 - q100 + q400"
    by (simp add: DayFromYear_def q4_def q100_def q400_def)
  show "400 * DayFromYear y \<le> 146097 * (y - 1970) + 589"
    unfolding d using a b c by (simp add: algebra_simps)
  show "146097 * (y - 1970) - 506 \<le> 400 * DayFromYear y"
    unfolding d using a b c by (simp add: algebra_simps)
qed

lemma DaysInYear_range: "DaysInYear y = 365 \<or> DaysInYear y = 366"
  by (simp add: DaysInYear_def)

lemma mod_shift_int: "((y::int) - k * c) mod k = y mod k"
proof -
  have "y - k * c = y + k * (- c)" by simp
  then show ?thesis by (simp only: mod_mult_self2)
qed

lemma DayFromYear_step: "DayFromYear (y + 1) = DayFromYear y + DaysInYear y"
proof -
  have e4: "(y + 1 - 1969) div 4 = (y - 1969) div 4 + (if y mod 4 = 0 then 1 else 0)"
  proof -
    have "(y - 1969) + 1 = y - 4 * 492" by simp
    then have "((y - 1969) + 1) mod 4 = y mod 4" by (simp only: mod_shift_int)
    then show ?thesis using div_succ_int[of 4 "y - 1969"] by (simp add: algebra_simps)
  qed
  have e100: "(y + 1 - 1901) div 100 = (y - 1901) div 100 + (if y mod 100 = 0 then 1 else 0)"
  proof -
    have "(y - 1901) + 1 = y - 100 * 19" by simp
    then have "((y - 1901) + 1) mod 100 = y mod 100" by (simp only: mod_shift_int)
    then show ?thesis using div_succ_int[of 100 "y - 1901"] by (simp add: algebra_simps)
  qed
  have e400: "(y + 1 - 1601) div 400 = (y - 1601) div 400 + (if y mod 400 = 0 then 1 else 0)"
  proof -
    have "(y - 1601) + 1 = y - 400 * 4" by simp
    then have "((y - 1601) + 1) mod 400 = y mod 400" by (simp only: mod_shift_int)
    then show ?thesis using div_succ_int[of 400 "y - 1601"] by (simp add: algebra_simps)
  qed
  have i1: "y mod 100 = 0 \<Longrightarrow> y mod 4 = 0"
  proof -
    assume "y mod 100 = 0"
    then have "100 dvd y" by (simp add: mod_eq_0_iff_dvd)
    moreover have "(4::int) dvd 100" by simp
    ultimately have "4 dvd y" by (rule dvd_trans[rotated])
    then show ?thesis by (simp add: mod_eq_0_iff_dvd)
  qed
  have i2: "y mod 400 = 0 \<Longrightarrow> y mod 100 = 0"
  proof -
    assume "y mod 400 = 0"
    then have "400 dvd y" by (simp add: mod_eq_0_iff_dvd)
    moreover have "(100::int) dvd 400" by simp
    ultimately have "100 dvd y" by (rule dvd_trans[rotated])
    then show ?thesis by (simp add: mod_eq_0_iff_dvd)
  qed
  show ?thesis
    unfolding DayFromYear_def DaysInYear_def e4 e100 e400
    using i1 i2 by (auto simp: algebra_simps)
qed

lemma yearFromDay_unique:
  assumes "DayFromYear y \<le> d" "d < DayFromYear (y + 1)"
  shows "yearFromDay d = y"
proof -
  define e where "e = (400 * d) div 146097"
  have eb: "146097 * e \<le> 400 * d" "400 * d < 146097 * e + 146097"
    unfolding e_def by (rule div_bounds_int, simp)+
  have lo: "146097 * (y - 1970) - 506 \<le> 400 * d"
    using DayFromYear_est(2)[of y] assms(1) by simp
  have hi: "400 * d + 400 \<le> 146097 * (y + 1 - 1970) + 589"
    using DayFromYear_est(1)[of "y + 1"] assms(2) by simp
  have e1: "y - 1971 \<le> e" using eb lo by (simp add: algebra_simps)
  have e2: "e \<le> y - 1969" using eb hi by (simp add: algebra_simps)
  have s0: "DayFromYear y = DayFromYear (y - 1) + DaysInYear (y - 1)"
    using DayFromYear_step[of "y - 1"] by simp
  consider "e = y - 1971" | "e = y - 1970" | "e = y - 1969" using e1 e2 by linarith
  then show ?thesis
  proof cases
    case 1
    then have "1970 + e = y - 1" by simp
    then show ?thesis
      using assms s0 DaysInYear_range[of "y - 1"]
      by (auto simp: yearFromDay_def Let_def e_def[symmetric])
  next
    case 2
    then have "1970 + e = y" by simp
    then show ?thesis
      using assms by (auto simp: yearFromDay_def Let_def e_def[symmetric])
  next
    case 3
    then have "1970 + e = y + 1" by simp
    then show ?thesis
      using assms by (auto simp: yearFromDay_def Let_def e_def[symmetric])
  qed
qed

lemma yearFromDay_bounds:
  "DayFromYear (yearFromDay d) \<le> d \<and> d < DayFromYear (yearFromDay d + 1)"
proof -
  define e where "e = (400 * d) div 146097"
  define y where "y = 1970 + e"
  have eb: "146097 * e \<le> 400 * d" "400 * d < 146097 * e + 146097"
    unfolding e_def by (rule div_bounds_int, simp)+
  have lo: "DayFromYear (y - 1) \<le> d"
    using DayFromYear_est(1)[of "y - 1"] eb by (simp add: y_def algebra_simps)
  have "d < DayFromYear (y + 2)"
    using DayFromYear_est(2)[of "y + 2"] eb by (simp add: y_def algebra_simps)
  moreover have "y + 1 + 1 = y + 2" by simp
  ultimately have hi: "d < DayFromYear (y + 1 + 1)" by (simp only:)
  have s0: "y - 1 + 1 = y" by simp
  have yd: "yearFromDay d = (if d < DayFromYear y then y - 1
         else if DayFromYear (y + 1) \<le> d then y + 1 else y)"
    by (simp add: yearFromDay_def Let_def y_def e_def)
  show ?thesis unfolding yd using lo hi by (simp add: s0)
qed

lemma DaysInYear_leapDays: "DaysInYear y = 365 + leapDays y"
  using DaysInYear_range[of y] by (auto simp: leapDays_def)

lemma leapDays_range: "0 \<le> leapDays y" "leapDays y \<le> 1"
  by (simp_all add: leapDays_def)

lemma month_cases:
  assumes "0 \<le> (m::int)" "m \<le> 11"
  shows "m = 0 \<or> m = 1 \<or> m = 2 \<or> m = 3 \<or> m = 4 \<or> m = 5 \<or> m = 6 \<or> m = 7 \<or> m = 8
       \<or> m = 9 \<or> m = 10 \<or> m = 11"
  using assms by arith

lemma month_of_monthStart_aux:
  assumes "0 \<le> leap" "leap \<le> 1" "1 \<le> d"
  shows "d \<le> 31 \<Longrightarrow> monthFromDayInYear leap (0 + d - 1) = 0"
    and "d \<le> 28 + leap \<Longrightarrow> monthFromDayInYear leap (31 + d - 1) = 1"
    and "d \<le> 31 \<Longrightarrow> monthFromDayInYear leap (59 + leap + d - 1) = 2"
    and "d \<le> 30 \<Longrightarrow> monthFromDayInYear leap (90 + leap + d - 1) = 3"
    and "d \<le> 31 \<Longrightarrow> monthFromDayInYear leap (120 + leap + d - 1) = 4"
    and "d \<le> 30 \<Longrightarrow> monthFromDayInYear leap (151 + leap + d - 1) = 5"
    and "d \<le> 31 \<Longrightarrow> monthFromDayInYear leap (181 + leap + d - 1) = 6"
    and "d \<le> 31 \<Longrightarrow> monthFromDayInYear leap (212 + leap + d - 1) = 7"
    and "d \<le> 30 \<Longrightarrow> monthFromDayInYear leap (243 + leap + d - 1) = 8"
    and "d \<le> 31 \<Longrightarrow> monthFromDayInYear leap (273 + leap + d - 1) = 9"
    and "d \<le> 30 \<Longrightarrow> monthFromDayInYear leap (304 + leap + d - 1) = 10"
    and "d \<le> 31 \<Longrightarrow> monthFromDayInYear leap (334 + leap + d - 1) = 11"
  using assms by (simp_all add: monthFromDayInYear_def)

lemma month_of_monthStart:
  assumes "0 \<le> m" "m \<le> 11" "1 \<le> d" "d \<le> daysInMonth y m"
  shows "monthFromDayInYear (leapDays y) (monthStart (leapDays y) m + d - 1) = m"
proof -
  note aux = month_of_monthStart_aux[OF leapDays_range[of y] assms(3)]
  from month_cases[OF assms(1,2)] show ?thesis
  proof (elim disjE)
    assume "m = 0" then show ?thesis using assms(4) aux(1) by (simp add: monthStart_def daysInMonth_def)
  next
    assume "m = 1" then show ?thesis using assms(4) aux(2) by (simp add: monthStart_def daysInMonth_def)
  next
    assume "m = 2" then show ?thesis using assms(4) aux(3) by (simp add: monthStart_def daysInMonth_def)
  next
    assume "m = 3" then show ?thesis using assms(4) aux(4) by (simp add: monthStart_def daysInMonth_def)
  next
    assume "m = 4" then show ?thesis using assms(4) aux(5) by (simp add: monthStart_def daysInMonth_def)
  next
    assume "m = 5" then show ?thesis using assms(4) aux(6) by (simp add: monthStart_def daysInMonth_def)
  next
    assume "m = 6" then show ?thesis using assms(4) aux(7) by (simp add: monthStart_def daysInMonth_def)
  next
    assume "m = 7" then show ?thesis using assms(4) aux(8) by (simp add: monthStart_def daysInMonth_def)
  next
    assume "m = 8" then show ?thesis using assms(4) aux(9) by (simp add: monthStart_def daysInMonth_def)
  next
    assume "m = 9" then show ?thesis using assms(4) aux(10) by (simp add: monthStart_def daysInMonth_def)
  next
    assume "m = 10" then show ?thesis using assms(4) aux(11) by (simp add: monthStart_def daysInMonth_def)
  next
    assume "m = 11" then show ?thesis using assms(4) aux(12) by (simp add: monthStart_def daysInMonth_def)
  qed
qed

lemma day_in_year_of_monthStart:
  assumes "0 \<le> m" "m \<le> 11" "1 \<le> d" "d \<le> daysInMonth y m"
  shows "0 \<le> monthStart (leapDays y) m + d - 1"
    and "monthStart (leapDays y) m + d - 1 < DaysInYear y"
proof -
  note l = leapDays_range[of y]
  show "0 \<le> monthStart (leapDays y) m + d - 1"
    using assms(3) l by (simp add: monthStart_def)
  from month_cases[OF assms(1,2)]
  show "monthStart (leapDays y) m + d - 1 < DaysInYear y"
    unfolding DaysInYear_leapDays
    using assms(4) l by (elim disjE) (simp_all add: monthStart_def daysInMonth_def)
qed

lemma div_of_sum:
  fixes q k r :: int
  assumes "0 \<le> r" "r < k"
  shows "(q * k + r) div k = q"
proof -
  have "k \<noteq> 0" using assms by auto
  then have "(q * k + r) div k = q + r div k" by (rule div_mult_self3)
  moreover have "r div k = 0" using assms by (simp add: div_pos_pos_trivial)
  ultimately show ?thesis by simp
qed

lemma mod_of_sum:
  fixes q k r :: int
  assumes "0 \<le> r" "r < k"
  shows "(q * k + r) mod k = r"
  using assms by (simp add: mod_pos_pos_trivial)

lemma MakeDay_in_range:
  assumes "0 \<le> m" "m \<le> 11"
  shows "MakeDay y m d = DayFromYear y + (monthStart (leapDays y) m + d - 1)"
proof -
  have "m div 12 = 0" "m mod 12 = m" using assms by simp_all
  then show ?thesis by (simp add: MakeDay_def Let_def)
qed

lemma fields_of_day:
  assumes "0 \<le> m" "m \<le> 11" "1 \<le> d" "d \<le> daysInMonth y m"
    and "Day t = MakeDay y m d"
  shows "YearFromTime t = y" "MonthFromTime t = m" "DateFromTime t = d"
proof -
  note r = day_in_year_of_monthStart[OF assms(1-4)]
  have day: "Day t = DayFromYear y + (monthStart (leapDays y) m + d - 1)"
    using assms(5) MakeDay_in_range[OF assms(1,2)] by simp
  have "DayFromYear y \<le> Day t" using day r(1) by simp
  moreover have "Day t < DayFromYear (y + 1)"
    using day r(2) by (simp add: DayFromYear_step)
  ultimately show y: "YearFromTime t = y"
    unfolding YearFromTime_def by (rule yearFromDay_unique)
  have w: "DayWithinYear t = monthStart (leapDays y) m + d - 1"
    by (simp add: DayWithinYear_def y day)
  show mo: "MonthFromTime t = m"
    unfolding MonthFromTime_def y w by (rule month_of_monthStart[OF assms(1-4)])
  show "DateFromTime t = d"
    by (simp add: DateFromTime_def y w mo)
qed

lemma time_of_day:
  fixes day :: int
  assumes "0 \<le> h" "h \<le> 23" "0 \<le> mi" "mi \<le> 59" "0 \<le> s" "s \<le> 59"
  defines "t \<equiv> MakeDate day (MakeTime h mi s 0)"
  shows "Day t = day" "HourFromTime t = h" "MinFromTime t = mi" "SecFromTime t = s"
proof -
  have d: "t = day * 86400000 + (h * 3600000 + mi * 60000 + s * 1000)"
    by (simp add: t_def MakeDate_def MakeTime_def msPerDay_def msPerHour_def msPerMinute_def
        msPerSecond_def)
  have "0 \<le> h * 3600000 + mi * 60000 + s * 1000" using assms(1,3,5) by simp
  moreover have "h * 3600000 + mi * 60000 + s * 1000 < 86400000" using assms(2,4,6) by simp
  ultimately show "Day t = day" unfolding Day_def msPerDay_def d by (rule div_of_sum)
  have hh: "t = (day * 24 + h) * 3600000 + (mi * 60000 + s * 1000)"
    unfolding d by (simp add: algebra_simps)
  have "0 \<le> mi * 60000 + s * 1000" using assms(3,5) by simp
  moreover have "mi * 60000 + s * 1000 < 3600000" using assms(4,6) by simp
  ultimately have qh: "t div 3600000 = day * 24 + h" unfolding hh by (rule div_of_sum)
  have "(day * 24 + h) mod 24 = h" using assms(1,2) by (intro mod_of_sum) simp_all
  then show "HourFromTime t = h" unfolding HourFromTime_def msPerHour_def qh .
  have mm: "t = ((day * 24 + h) * 60 + mi) * 60000 + s * 1000"
    unfolding d by (simp add: algebra_simps)
  have "0 \<le> s * 1000" using assms(5) by simp
  moreover have "s * 1000 < 60000" using assms(6) by simp
  ultimately have qm: "t div 60000 = (day * 24 + h) * 60 + mi" unfolding mm by (rule div_of_sum)
  have "((day * 24 + h) * 60 + mi) mod 60 = mi" using assms(3,4) by (intro mod_of_sum) simp_all
  then show "MinFromTime t = mi" unfolding MinFromTime_def msPerMinute_def qm .
  have ss: "t = (((day * 24 + h) * 60 + mi) * 60 + s) * 1000 + 0"
    unfolding d by (simp add: algebra_simps)
  have qs: "t div 1000 = ((day * 24 + h) * 60 + mi) * 60 + s"
    unfolding ss by (rule div_of_sum) simp_all
  have "(((day * 24 + h) * 60 + mi) * 60 + s) mod 60 = s"
    using assms(5,6) by (intro mod_of_sum) simp_all
  then show "SecFromTime t = s" unfolding SecFromTime_def msPerSecond_def qs .
qed

lemma monthFromDayInYear_range:
  "0 \<le> monthFromDayInYear leap dwy \<and> monthFromDayInYear leap dwy \<le> 11"
  by (simp add: monthFromDayInYear_def)

lemma MakeDay_of_fields: "MakeDay (YearFromTime t) (MonthFromTime t) (DateFromTime t) = Day t"
proof -
  have r: "0 \<le> MonthFromTime t" "MonthFromTime t \<le> 11"
    using monthFromDayInYear_range by (simp_all add: MonthFromTime_def)
  then have "MonthFromTime t div 12 = 0" "MonthFromTime t mod 12 = MonthFromTime t"
    by simp_all
  then show ?thesis
    by (simp add: MakeDay_def Let_def DateFromTime_def DayWithinYear_def)
qed

lemma DayFromYear_1970: "DayFromYear 1970 = 0"
  by (simp add: DayFromYear_def)

lemma yearFromDay_nonneg:
  assumes "0 \<le> d"
  shows "1970 \<le> yearFromDay d"
proof -
  define e where "e = (400 * d) div 146097"
  have e: "0 \<le> e" unfolding e_def using assms by (simp add: pos_imp_zdiv_nonneg_iff)
  show ?thesis
  proof (cases "e = 0")
    case True
    then show ?thesis using assms
      by (simp add: yearFromDay_def Let_def e_def[symmetric] DayFromYear_1970)
  next
    case False
    then have "1 \<le> e" using e by simp
    then show ?thesis by (simp add: yearFromDay_def Let_def e_def[symmetric])
  qed
qed

lemma Day_nonneg: "0 \<le> t \<Longrightarrow> 0 \<le> Day t"
  by (simp add: Day_def msPerDay_def pos_imp_zdiv_nonneg_iff)

lemma Date_UTC_today:
  assumes "0 \<le> now"
  shows "Date_UTC (getUTCFullYear now) (getUTCMonth now) (getUTCDate now) hours minutes 0
     = TimeClip (Day now * msPerDay + hours * msPerHour + minutes * msPerMinute)"
proof -
  have "1970 \<le> YearFromTime now"
    using yearFromDay_nonneg[OF Day_nonneg[OF assms]] by (simp add: YearFromTime_def)
  then have "MakeFullYear (YearFromTime now) = YearFromTime now"
    by (simp add: MakeFullYear_def)
  then show ?thesis
    by (simp add: Date_UTC_def getUTCFullYear_def getUTCMonth_def getUTCDate_def
        MakeDay_of_fields MakeDate_def MakeTime_def add.assoc)
qed

lemma TimeClip_civil:
  assumes "0 \<le> y" "y \<le> 9999" "0 \<le> w" "w < 366" "0 \<le> r" "r < 86400000"
  shows "TimeClip (MakeDate (DayFromYear y + w) r) = Some (MakeDate (DayFromYear y + w) r)"
proof -
  have u: "400 * DayFromYear y \<le> 146097 * (9999 - 1970) + 589"
    using DayFromYear_est(1)[of y] assms(2) by simp
  have l: "146097 * (0 - 1970) - 506 \<le> 400 * DayFromYear y"
    using DayFromYear_est(2)[of y] assms(1) by simp
  have "DayFromYear y + w \<le> 3000000" using u assms(4) by simp
  then have "(DayFromYear y + w) * 86400000 \<le> 3000000 * 86400000" by simp
  then have a: "MakeDate (DayFromYear y + w) r \<le> 8640000000000000"
    using assms(6) by (simp add: MakeDate_def msPerDay_def)
  have "- 1000000 \<le> DayFromYear y + w" using l assms(3) by simp
  then have "- 1000000 * 86400000 \<le> (DayFromYear y + w) * 86400000" by simp
  then have b: "- 8640000000000000 \<le> MakeDate (DayFromYear y + w) r"
    using assms(5) by (simp add: MakeDate_def msPerDay_def)
  show ?thesis using a b by (simp add: TimeClip_def)
qed

text \<open>
  A date and time of day in range: \<^verbatim>\<open>Date.UTC\<close> gives a valid instant whose UTC
  calendar fields are the arguments.
\<close>

lemma Date_UTC_fields:
  assumes "100 \<le> y" "y \<le> 9999" "0 \<le> m" "m \<le> 11" "1 \<le> d" "d \<le> daysInMonth y m"
    "0 \<le> h" "h \<le> 23" "0 \<le> mi" "mi \<le> 59" "0 \<le> s" "s \<le> 59"
  shows "\<exists>t. Date_UTC y m d h mi s = Some t \<and> YearFromTime t = y \<and> MonthFromTime t = m
          \<and> DateFromTime t = d \<and> HourFromTime t = h \<and> MinFromTime t = mi
          \<and> SecFromTime t = s"
proof -
  define t where "t = MakeDate (MakeDay y m d) (MakeTime h mi s 0)"
  note tod = time_of_day[OF assms(7-12), of "MakeDay y m d", folded t_def]
  note cal = fields_of_day[OF assms(3-6) tod(1)]
  note w = day_in_year_of_monthStart[OF assms(3-6)]
  have "monthStart (leapDays y) m + d - 1 < 366"
    using w(2) DaysInYear_range[of y] by auto
  moreover have "0 \<le> MakeTime h mi s 0" "MakeTime h mi s 0 < 86400000"
    using assms(7-12)
    by (simp_all add: MakeTime_def msPerHour_def msPerMinute_def msPerSecond_def)
  ultimately have "TimeClip t = Some t"
    unfolding t_def MakeDay_in_range[OF assms(3,4)]
    using assms(1,2) w(1) by (intro TimeClip_civil) simp_all
  moreover have "MakeFullYear y = y" using assms(1) by (simp add: MakeFullYear_def)
  ultimately have "Date_UTC y m d h mi s = Some t"
    by (simp add: Date_UTC_def t_def)
  then show ?thesis using cal tod by simp
qed

lemma date_in_month_range:
  assumes "0 \<le> leap" "leap \<le> 1" "0 \<le> w" "w < 365 + leap"
  shows "1 \<le> w - monthStart leap (monthFromDayInYear leap w) + 1"
    and "w - monthStart leap (monthFromDayInYear leap w) + 1 \<le> 31"
  using assms by (simp_all add: monthFromDayInYear_def monthStart_def)

lemma DayWithinYear_range: "0 \<le> DayWithinYear t \<and> DayWithinYear t < 365 + leapDays (YearFromTime t)"
  using yearFromDay_bounds[of "Day t"]
  by (simp add: DayWithinYear_def YearFromTime_def DayFromYear_step DaysInYear_leapDays)

lemma DateFromTime_range: "1 \<le> DateFromTime t \<and> DateFromTime t \<le> 31"
  using date_in_month_range[OF leapDays_range[of "YearFromTime t"], of "DayWithinYear t"]
    DayWithinYear_range[of t]
  by (simp add: DateFromTime_def MonthFromTime_def)

lemma MonthFromTime_range: "0 \<le> MonthFromTime t \<and> MonthFromTime t \<le> 11"
  using monthFromDayInYear_range by (simp add: MonthFromTime_def)

lemma time_fields_range:
  "0 \<le> HourFromTime t \<and> HourFromTime t \<le> 23"
  "0 \<le> MinFromTime t \<and> MinFromTime t \<le> 59"
  "0 \<le> SecFromTime t \<and> SecFromTime t \<le> 59"
proof -
  have "x mod 24 < 24" "x mod 60 < 60" for x :: int by simp_all
  then have "x mod 24 \<le> 23" "x mod 60 \<le> 59" for x :: int by (simp_all add: zle_diff1_eq[symmetric])
  then show "0 \<le> HourFromTime t \<and> HourFromTime t \<le> 23"
    "0 \<le> MinFromTime t \<and> MinFromTime t \<le> 59"
    "0 \<le> SecFromTime t \<and> SecFromTime t \<le> 59"
    by (simp_all add: HourFromTime_def MinFromTime_def SecFromTime_def)
qed

section \<open>Digits and numerals\<close>

lemma upperChar_letters:
  "upperChar CHR ''A'' = CHR ''A''" "upperChar CHR ''a'' = CHR ''A''"
  "upperChar CHR ''P'' = CHR ''P''" "upperChar CHR ''p'' = CHR ''P''"
  "upperChar CHR ''M'' = CHR ''M''" "upperChar CHR ''m'' = CHR ''M''"
  by code_simp+

lemma digit_index_cases:
  assumes "(k::nat) < 10"
  shows "k \<in> {0, 1, 2, 3, 4, 5, 6, 7, 8, 9}"
  using assms by auto

lemma isDigit_digitChar: "k < 10 \<Longrightarrow> isDigit (digitChar k)"
  using digit_index_cases[of k] by (auto simp: digitChar_def isDigit_def)

lemma digitChar_digitVal: "isDigit c \<Longrightarrow> digitChar (nat (digitVal c)) = c"
  by (auto simp: isDigit_def digitVal_def digitChar_def)

lemma digitVal_range:
  assumes "isDigit c"
  shows "0 \<le> digitVal c" "digitVal c \<le> 9" "nat (digitVal c) < 10"
  using assms by (auto simp: isDigit_def digitVal_def)

lemma parseInt_snoc: "parseInt (g @ [c]) = 10 * parseInt g + digitVal c"
  by (simp add: parseInt_def)

lemma parseInt_nonneg: "list_all isDigit g \<Longrightarrow> 0 \<le> parseInt g"
proof (induction g rule: rev_induct)
  case Nil
  then show ?case by (simp add: parseInt_def)
next
  case (snoc c g)
  then show ?case using digitVal_range(1)[of c] by (simp add: parseInt_snoc)
qed

lemma natToString_step:
  assumes "0 < n" "k < 10"
  shows "natToString (10 * n + k) = natToString n @ [digitChar k]"
proof -
  have "\<not> 10 * n + k < 10" using assms by simp
  moreover have "(10 * n + k) div 10 = n" "(10 * n + k) mod 10 = k" using assms by simp_all
  ultimately show ?thesis by (subst natToString.simps) simp
qed

lemma natToString_digit: "k < 10 \<Longrightarrow> natToString k = [digitChar k]"
  by (subst natToString.simps) simp

lemma numToString_digit:
  assumes "isDigit c"
  shows "numToString (digitVal c) = [c]"
  using digitVal_range[OF assms] digitChar_digitVal[OF assms]
  by (simp add: numToString_def natToString_digit)

text \<open>Reading a numeral without leading zero and writing it again gives the numeral.\<close>

lemma numToString_parseInt:
  assumes "list_all isDigit g" "g \<noteq> []" "hd g \<noteq> CHR ''0''"
  shows "0 < parseInt g \<and> numToString (parseInt g) = g"
  using assms
proof (induction g rule: rev_induct)
  case Nil
  then show ?case by simp
next
  case (snoc c g)
  have c: "isDigit c" using snoc.prems(1) by simp
  note r = digitVal_range[OF c]
  show ?case
  proof (cases "g = []")
    case True
    then have "c \<noteq> CHR ''0''" using snoc.prems(3) by simp
    then have "0 < digitVal c" using c by (auto simp: isDigit_def digitVal_def)
    then show ?thesis
      using True by (simp add: parseInt_def numToString_digit[OF c])
  next
    case False
    then have ih: "0 < parseInt g" "numToString (parseInt g) = g"
      using snoc by simp_all
    have "nat (parseInt (g @ [c])) = 10 * nat (parseInt g) + nat (digitVal c)"
      using ih(1) r by (simp add: parseInt_snoc nat_add_distrib nat_mult_distrib)
    then have "natToString (nat (parseInt (g @ [c]))) = natToString (nat (parseInt g)) @ [c]"
      using natToString_step[of "nat (parseInt g)" "nat (digitVal c)"] ih(1) r
        digitChar_digitVal[OF c] by simp
    moreover have "natToString (nat (parseInt g)) = g"
      using ih by (simp add: numToString_def)
    ultimately show ?thesis
      using ih(1) r by (simp add: numToString_def parseInt_snoc)
  qed
qed

lemma pad2_parseInt:
  assumes "length g = 2" "list_all isDigit g"
  shows "padStart 2 CHR ''0'' (numToString (parseInt g)) = g"
proof -
  obtain a b where g: "g = [a, b]" using assms(1) by (cases g; cases "tl g") auto
  show ?thesis
  proof (cases "a = CHR ''0''")
    case True
    have b: "isDigit b" using assms(2) g by simp
    have "parseInt g = digitVal b" using True g by (simp add: parseInt_def digitVal_def)
    then have "numToString (parseInt g) = [b]"
      by (simp add: numToString_digit[OF b])
    then show ?thesis using True g by (simp add: padStart_def)
  next
    case False
    then have "numToString (parseInt g) = g"
      using numToString_parseInt[of g] assms g by simp
    then show ?thesis using assms(1) by (simp add: padStart_def)
  qed
qed

lemma parseInt_four:
  assumes "length y = 4" "list_all isDigit y"
  shows "parseInt y \<le> 9999" and "1000 \<le> parseInt y \<Longrightarrow> hd y \<noteq> CHR ''0''"
proof -
  obtain a b c d where y: "y = [a, b, c, d]"
    using assms(1) by (cases y; cases "tl y"; cases "tl (tl y)"; cases "tl (tl (tl y))") auto
  have p: "parseInt y = 1000 * digitVal a + 100 * digitVal b + 10 * digitVal c + digitVal d"
    by (simp add: y parseInt_def)
  have r: "isDigit a" "isDigit b" "isDigit c" "isDigit d" using assms(2) y by simp_all
  note ra = digitVal_range[OF r(1)] and rb = digitVal_range[OF r(2)]
    and rc = digitVal_range[OF r(3)] and rd = digitVal_range[OF r(4)]
  show "parseInt y \<le> 9999" unfolding p using ra rb rc rd by simp
  show "hd y \<noteq> CHR ''0''" if "1000 \<le> parseInt y"
  proof
    assume "hd y = CHR ''0''"
    then have "digitVal a = 0" using y by (simp add: digitVal_def)
    then have "parseInt y \<le> 999" unfolding p using rb rc rd by simp
    then show False using that by simp
  qed
qed

lemma pad2_shape:
  assumes "0 \<le> n" "n \<le> 99"
  shows "length (padStart 2 CHR ''0'' (numToString n)) = 2
       \<and> list_all isDigit (padStart 2 CHR ''0'' (numToString n))"
proof (cases "n < 10")
  case True
  then have "numToString n = [digitChar (nat n)]" "nat n < 10"
    using assms(1) by (simp_all add: numToString_def natToString_digit)
  then show ?thesis
    using isDigit_digitChar[of "nat n"] by (simp add: padStart_def isDigit_def)
next
  case False
  then have a: "\<not> nat n < 10" "nat n div 10 < 10" "nat n mod 10 < 10" using assms by auto
  have "natToString (nat n) = natToString (nat n div 10) @ [digitChar (nat n mod 10)]"
    using a(1) by (subst natToString.simps) simp
  then have "numToString n = [digitChar (nat n div 10), digitChar (nat n mod 10)]"
    using assms(1) a(2) by (simp add: numToString_def natToString_digit)
  then show ?thesis
    using isDigit_digitChar[OF a(2)] isDigit_digitChar[OF a(3)] by (simp add: padStart_def)
qed

lemma natToString_digits: "list_all isDigit (natToString n)"
proof (induction n rule: natToString.induct)
  case (1 n)
  show ?case
  proof (cases "n < 10")
    case True
    then show ?thesis by (simp add: natToString_digit isDigit_digitChar)
  next
    case False
    then have "natToString n = natToString (n div 10) @ [digitChar (n mod 10)]"
      by (subst natToString.simps) simp
    then show ?thesis using 1[OF False] isDigit_digitChar[of "n mod 10"] by simp
  qed
qed

lemma natToString_length:
  "length (natToString n) = (if n < 10 then 1 else 1 + length (natToString (n div 10)))"
  by (subst natToString.simps) simp

lemma natToString_length_four: "length (natToString n) = 4 \<longleftrightarrow> 1000 \<le> n \<and> n \<le> 9999"
proof -
  have d: "n div 10 < k \<longleftrightarrow> n < k * 10" for k by (simp add: div_less_iff_less_mult)
  have e: "n div 10 div 10 < k \<longleftrightarrow> n < k * 100" for k
    by (simp add: div_less_iff_less_mult mult.commute)
  have f: "n div 10 div 10 div 10 < k \<longleftrightarrow> n < k * 1000" for k
    by (simp add: div_less_iff_less_mult mult.commute)
  have g: "n div 10 div 10 div 10 div 10 < k \<longleftrightarrow> n < k * 10000" for k
    by (simp add: div_less_iff_less_mult mult.commute)
  show ?thesis
    by (simp add: natToString_length[of n] natToString_length[of "n div 10"]
        natToString_length[of "n div 10 div 10"] natToString_length[of "n div 10 div 10 div 10"]
        natToString_length[of "n div 10 div 10 div 10 div 10"] d e f g)
qed

text \<open>The year is written with exactly four digits for the years 1000 to 9999 only.\<close>

lemma year_four_digits:
  "length (numToString y) = 4 \<and> list_all isDigit (numToString y) \<longleftrightarrow> 1000 \<le> y \<and> y \<le> 9999"
proof (cases "y < 0")
  case True
  then show ?thesis by (simp add: numToString_def isDigit_def)
next
  case False
  then show ?thesis
    using natToString_length_four[of "nat y"] natToString_digits[of "nat y"]
    by (auto simp: numToString_def)
qed

section \<open>The patterns on texts of the two layouts\<close>

lemma digits_append:
  assumes "length g = n" "list_all isDigit g"
  shows "digits n (g @ r) = Some (g, r)"
  using assms by (simp add: digits_def)

lemma digits_Some:
  "digits n s = Some (g, r) \<Longrightarrow> g = take n s \<and> r = drop n s \<and> n \<le> length s \<and> list_all isDigit g"
  by (auto simp: digits_def split: if_splits)

lemma lit_Cons [simp]: "lit c (c # r) = Some r"
  by (simp add: lit_def)

lemma lit_Some_drop: "lit c s = Some r \<Longrightarrow> r = drop 1 s"
  by (auto simp: lit_def split: list.splits if_splits)

text \<open>The text of a timestamp in the naive SQL layout, from its six fields.\<close>

lemma sqlPattern_text:
  assumes "length y = 4" "list_all isDigit y" "length mo = 2" "list_all isDigit mo"
    "length d = 2" "list_all isDigit d" "length h = 2" "list_all isDigit h"
    "length mi = 2" "list_all isDigit mi" "length se = 2" "list_all isDigit se"
  shows "sqlPattern (y @ ''-'' @ mo @ ''-'' @ d @ '' '' @ h @ '':'' @ mi @ '':'' @ se @ r)
     = Some ([y @ ''-'' @ mo @ ''-'' @ d @ '' '' @ h @ '':'' @ mi @ '':'' @ se,
              y, mo, d, h, mi, se], r)"
  using assms by (simp add: sqlPattern_def digits_append)

lemma sqlPattern_Some:
  assumes "sqlPattern s = Some (parts, r)"
  shows "parts = [take (length s - length r) s, take 4 s, take 2 (drop 5 s), take 2 (drop 8 s),
                  take 2 (drop 11 s), take 2 (drop 14 s), take 2 (drop 17 s)]"
proof -
  from assms obtain g1 r1 r2 g2 r3 r4 g3 r5 r6 g4 r7 r8 g5 r9 r10 g6 where
    s: "digits 4 s = Some (g1, r1)" "lit CHR ''-'' r1 = Some r2"
       "digits 2 r2 = Some (g2, r3)" "lit CHR ''-'' r3 = Some r4"
       "digits 2 r4 = Some (g3, r5)" "lit CHR '' '' r5 = Some r6"
       "digits 2 r6 = Some (g4, r7)" "lit CHR '':'' r7 = Some r8"
       "digits 2 r8 = Some (g5, r9)" "lit CHR '':'' r9 = Some r10"
       "digits 2 r10 = Some (g6, r)"
       "parts = [take (length s - length r) s, g1, g2, g3, g4, g5, g6]"
    unfolding sqlPattern_def by (auto split: bind_splits)
  have 1: "r1 = drop 4 s" "g1 = take 4 s" using digits_Some[OF s(1)] by simp_all
  have 2: "r2 = drop 5 s" using lit_Some_drop[OF s(2)] 1 by simp
  have 3: "r3 = drop 7 s" "g2 = take 2 (drop 5 s)" using digits_Some[OF s(3)] 2 by simp_all
  have 4: "r4 = drop 8 s" using lit_Some_drop[OF s(4)] 3 by simp
  have 5: "r5 = drop 10 s" "g3 = take 2 (drop 8 s)" using digits_Some[OF s(5)] 4 by simp_all
  have 6: "r6 = drop 11 s" using lit_Some_drop[OF s(6)] 5 by simp
  have 7: "r7 = drop 13 s" "g4 = take 2 (drop 11 s)" using digits_Some[OF s(7)] 6 by simp_all
  have 8: "r8 = drop 14 s" using lit_Some_drop[OF s(8)] 7 by simp
  have 9: "r9 = drop 16 s" "g5 = take 2 (drop 14 s)" using digits_Some[OF s(9)] 8 by simp_all
  have 10: "r10 = drop 17 s" using lit_Some_drop[OF s(10)] 9 by simp
  have 11: "g6 = take 2 (drop 17 s)" using digits_Some[OF s(11)] 10 by simp
  show ?thesis using s(12) 1 3 5 7 9 11 by simp
qed

lemma search_first: "p s = Some m \<Longrightarrow> search p s = Some (fst m)"
  by (cases s) simp_all

text \<open>When the outer test succeeds the inner match succeeds too, at position 0.\<close>

lemma matchSqlParts_of_shape:
  assumes "matchesSqlShape s"
  shows "matchSqlParts s = Some [s, take 4 s, take 2 (drop 5 s), take 2 (drop 8 s),
                  take 2 (drop 11 s), take 2 (drop 14 s), take 2 (drop 17 s)]"
proof -
  from assms obtain parts where p: "sqlPattern s = Some (parts, [])"
    by (auto simp: matchesSqlShape_def split: option.splits)
  have "matchSqlParts s = Some parts"
    using search_first[of sqlPattern s "(parts, [])"] p by (simp add: matchSqlParts_def)
  then show ?thesis using sqlPattern_Some[OF p] by simp
qed

lemma amPm_letters:
  assumes "a \<in> set ''AaPp''" "m \<in> set ''Mm''"
  shows "amPm (a # m # r) = Some ([a, m], r)"
  using assms by (auto simp: amPm_def)

lemma space_letter:
  assumes "a \<in> set ''AaPp''"
  shows "space (a # r) = None"
proof -
  have "a = CHR ''A'' \<or> a = CHR ''a'' \<or> a = CHR ''P'' \<or> a = CHR ''p''"
    using assms by auto
  then show ?thesis
    by (elim disjE) (simp_all add: space_def whiteSpace_def)
qed

lemma space_whiteSpace:
  assumes "w \<in> set whiteSpace"
  shows "space (w @ r) = Some r"
  using assms unfolding whiteSpace_def set_simps insert_iff empty_iff
  by (elim disjE FalseE) (simp_all add: space_def whiteSpace_def)

lemma clockTail_letters:
  assumes "a \<in> set ''AaPp''" "m \<in> set ''Mm''"
  shows "clockTail toEnd [a, m] = Some ([a, m], [])"
  using assms by (simp add: clockTail_def amPm_letters)

lemma clock_after_minutes:
  assumes "sp = [] \<or> sp \<in> set whiteSpace" "a \<in> set ''AaPp''" "m \<in> set ''Mm''"
  shows "(case space (sp @ [a, m]) \<bind> clockTail toEnd of
            Some x \<Rightarrow> Some x
          | None \<Rightarrow> clockTail toEnd (sp @ [a, m])) = Some ([a, m], [])"
proof (cases "sp = []")
  case True
  then show ?thesis using assms(2,3) by (simp add: space_letter clockTail_letters)
next
  case False
  then have "space (sp @ [a, m]) = Some [a, m]" using assms(1) by (simp add: space_whiteSpace)
  then show ?thesis using assms(2,3) by (simp add: clockTail_letters)
qed

lemma clockPatternFrom_text:
  assumes "length mm = 2" "list_all isDigit mm"
    "sp = [] \<or> sp \<in> set whiteSpace" "a \<in> set ''AaPp''" "m \<in> set ''Mm''"
  shows "clockPatternFrom toEnd s g1 ('':'' @ mm @ sp @ [a, m]) = Some ([s, g1, mm, [a, m]], [])"
  using assms(1,2) clock_after_minutes[OF assms(3-5), of toEnd]
  by (simp add: clockPatternFrom_def digits_append)

lemma colon_not_digit: "\<not> isDigit CHR '':''"
  by (simp add: isDigit_def)

lemma clockPattern_text:
  assumes "length hh = 1 \<or> length hh = 2" "list_all isDigit hh"
    "length mm = 2" "list_all isDigit mm"
    "sp = [] \<or> sp \<in> set whiteSpace" "a \<in> set ''AaPp''" "m \<in> set ''Mm''"
  shows "clockPattern toEnd (hh @ '':'' @ mm @ sp @ [a, m])
     = Some ([hh @ '':'' @ mm @ sp @ [a, m], hh, mm, [a, m]], [])"
proof -
  let ?s = "hh @ '':'' @ mm @ sp @ [a, m]"
  note rest = clockPatternFrom_text[OF assms(3-7), of toEnd ?s hh]
  show ?thesis
  proof (cases "length hh = 2")
    case True
    then have "digits 2 ?s = Some (hh, '':'' @ mm @ sp @ [a, m])"
      using assms(2) by (simp add: digits_append)
    then show ?thesis using rest by (simp add: clockPattern_def)
  next
    case False
    then have l: "length hh = 1" using assms(1) by simp
    then obtain h1 where h: "hh = [h1]" by (cases hh) simp_all
    have "digits 2 ?s = None" by (simp add: h digits_def colon_not_digit)
    moreover have "digits 1 ?s = Some (hh, '':'' @ mm @ sp @ [a, m])"
      using assms(2) l by (simp add: digits_append)
    ultimately show ?thesis using rest by (simp add: clockPattern_def)
  qed
qed

lemma clockTail_relax:
  assumes "clockTail True s \<noteq> None"
  shows "clockTail False s \<noteq> None"
  using assms by (auto simp: clockTail_def split: bind_splits if_splits)

lemma clockPatternFrom_relax:
  assumes "clockPatternFrom True s g r \<noteq> None"
  shows "clockPatternFrom False s g r \<noteq> None"
proof -
  from assms obtain r1 g2 r2 where
    a: "lit CHR '':'' r = Some r1" "digits 2 r1 = Some (g2, r2)"
    and b: "(case space r2 \<bind> clockTail True of Some m \<Rightarrow> Some m | None \<Rightarrow> clockTail True r2)
            \<noteq> None"
    unfolding clockPatternFrom_def by (auto split: bind_splits)
  have "(case space r2 \<bind> clockTail False of Some m \<Rightarrow> Some m | None \<Rightarrow> clockTail False r2)
            \<noteq> None"
  proof (cases "space r2 \<bind> clockTail True")
    case None
    then have "clockTail True r2 \<noteq> None" using b by simp
    then have "clockTail False r2 \<noteq> None" by (rule clockTail_relax)
    then show ?thesis by (auto split: option.splits)
  next
    case (Some x)
    then obtain r3 where "space r2 = Some r3" "clockTail True r3 \<noteq> None"
      by (auto split: bind_splits)
    then have "space r2 \<bind> clockTail False \<noteq> None"
      using clockTail_relax[of r3] by auto
    then show ?thesis by (auto split: option.splits)
  qed
  then show ?thesis
    unfolding clockPatternFrom_def using a by (auto split: bind_splits)
qed

lemma clockPattern_relax:
  assumes "clockPattern True s \<noteq> None"
  shows "clockPattern False s \<noteq> None"
proof -
  have "(\<exists>g r. digits 2 s = Some (g, r) \<and> clockPatternFrom True s g r \<noteq> None)
      \<or> (\<exists>g r. digits 1 s = Some (g, r) \<and> clockPatternFrom True s g r \<noteq> None)"
    using assms unfolding clockPattern_def
    by (auto split: option.splits bind_splits)
  then show ?thesis
  proof
    assume "\<exists>g r. digits 2 s = Some (g, r) \<and> clockPatternFrom True s g r \<noteq> None"
    then obtain g r where "digits 2 s = Some (g, r)" "clockPatternFrom False s g r \<noteq> None"
      using clockPatternFrom_relax by blast
    then show ?thesis by (auto simp: clockPattern_def split: option.splits)
  next
    assume "\<exists>g r. digits 1 s = Some (g, r) \<and> clockPatternFrom True s g r \<noteq> None"
    then obtain g r where "digits 1 s = Some (g, r)" "clockPatternFrom False s g r \<noteq> None"
      using clockPatternFrom_relax by blast
    then show ?thesis by (auto simp: clockPattern_def split: option.splits bind_splits)
  qed
qed

text \<open>
  The clock pattern without \<^verbatim>\<open>$\<close> matches wherever the pattern with \<^verbatim>\<open>$\<close> does, so the
  inner match of the clock branch cannot fail either.
\<close>

lemma matchClockParts_of_shape:
  assumes "matchesClockShape s"
  shows "matchClockParts s \<noteq> None"
proof -
  have "clockPattern False s \<noteq> None"
    using assms clockPattern_relax by (simp add: matchesClockShape_def)
  then obtain m where "clockPattern False s = Some m" by auto
  then show ?thesis
    using search_first[of "clockPattern False" s m] by (simp add: matchClockParts_def)
qed

lemma digit_not_TZ:
  assumes "isDigit c"
  shows "c \<noteq> CHR ''T'' \<and> c \<noteq> CHR ''Z''"
  using assms by (auto simp: isDigit_def)

lemma digits_no_TZ:
  assumes "list_all isDigit g"
  shows "CHR ''T'' \<notin> set g \<and> CHR ''Z'' \<notin> set g"
  using assms digit_not_TZ by (auto simp: list_all_iff)

lemma whiteSpace_no_TZ:
  assumes "w \<in> set whiteSpace"
  shows "CHR ''T'' \<notin> set w \<and> CHR ''Z'' \<notin> set w"
  using assms unfolding whiteSpace_def set_simps insert_iff empty_iff
  by (elim disjE FalseE) simp_all

lemma clock_text_no_TZ:
  assumes "list_all isDigit hh" "list_all isDigit mm"
    "sp = [] \<or> sp \<in> set whiteSpace" "a \<in> set ''AaPp''" "m \<in> set ''Mm''"
  shows "\<not> includes_js (hh @ '':'' @ mm @ sp @ [a, m]) CHR ''T''
       \<and> \<not> includes_js (hh @ '':'' @ mm @ sp @ [a, m]) CHR ''Z''"
proof -
  have "CHR ''T'' \<notin> set sp \<and> CHR ''Z'' \<notin> set sp"
    using assms(3) whiteSpace_no_TZ by auto
  then show ?thesis
    using digits_no_TZ[OF assms(1)] digits_no_TZ[OF assms(2)] assms(4,5)
    by (auto simp: includes_js_def)
qed

lemma sql_text_no_TZ:
  assumes "list_all isDigit y" "list_all isDigit mo" "list_all isDigit d"
    "list_all isDigit h" "list_all isDigit mi" "list_all isDigit se"
  shows "\<not> includes_js (y @ ''-'' @ mo @ ''-'' @ d @ '' '' @ h @ '':'' @ mi @ '':'' @ se) CHR ''T''
       \<and> \<not> includes_js (y @ ''-'' @ mo @ ''-'' @ d @ '' '' @ h @ '':'' @ mi @ '':'' @ se) CHR ''Z''"
  using digits_no_TZ[OF assms(1)] digits_no_TZ[OF assms(2)] digits_no_TZ[OF assms(3)]
    digits_no_TZ[OF assms(4)] digits_no_TZ[OF assms(5)] digits_no_TZ[OF assms(6)]
  by (simp add: includes_js_def)

lemma clock_text_not_sql:
  assumes "length hh = 1 \<or> length hh = 2"
  shows "\<not> matchesSqlShape (hh @ '':'' @ r)"
proof -
  have "\<not> list_all isDigit (take 4 (hh @ '':'' @ r))"
  proof (cases "length hh = 2")
    case True
    then obtain h1 h2 where "hh = [h1, h2]"
      by (cases hh; cases "tl hh") auto
    then show ?thesis by (simp add: colon_not_digit)
  next
    case False
    then have "length hh = 1" using assms by simp
    then obtain h1 where "hh = [h1]" by (cases hh) simp_all
    then show ?thesis by (simp add: colon_not_digit)
  qed
  then have "digits 4 (hh @ '':'' @ r) = None" by (simp add: digits_def)
  then show ?thesis by (simp add: matchesSqlShape_def sqlPattern_def)
qed

lemma clock_text_not_sentinel:
  assumes "hh \<noteq> []" "list_all isDigit hh"
  shows "hh @ r \<noteq> '''' \<and> hh @ r \<noteq> ''Unknown'' \<and> hh @ r \<noteq> ''Never'' \<and> hh @ r \<noteq> ''Recent''"
proof -
  obtain h1 t where h: "hh = h1 # t" using assms(1) by (cases hh) simp_all
  then have "isDigit h1" using assms(2) by simp
  then have "h1 \<noteq> CHR ''U'' \<and> h1 \<noteq> CHR ''N'' \<and> h1 \<noteq> CHR ''R''"
    by (auto simp: isDigit_def)
  then show ?thesis by (simp add: h)
qed

lemma toUpperCase_period:
  assumes "a \<in> set ''AaPp''" "m \<in> set ''Mm''"
  shows "toUpperCase [a, m] = (if a = CHR ''P'' \<or> a = CHR ''p'' then ''PM'' else ''AM'')"
  using assms by (auto simp: toUpperCase_def upperChar_letters)

section \<open>formatLastActivity\<close>

lemma formatLastActivity_parsed:
  assumes "lastActivityStr \<noteq> ''''" "lastActivityStr \<noteq> ''Unknown''"
    "lastActivityStr \<noteq> ''Never''"
  shows "formatLastActivity rt lastActivityStr =
     (case relativeTimeOf rt lastActivityStr (dateParse rt lastActivityStr) of
        Inl error \<Rightarrow> lastActivityStr | Inr result \<Rightarrow> result)"
  using assms by (simp add: formatLastActivity_def formatLastActivity_try_def)

lemma bands_result:
  fixes sec mi h d :: int
  shows "(case (if sec < 60 then
             (if sec \<le> 5 then Inr ''Just now'' else Inr (agoPhrase sec ''second''))
           else if mi < 60 then Inr (agoPhrase mi ''minute'')
           else if h < 24 then Inr (agoPhrase h ''hour'')
           else if d \<le> 2 then Inr (agoPhrase d ''day'')
           else X) of Inl (error :: jsError) \<Rightarrow> s | Inr result \<Rightarrow> result)
     = (if sec < 60 then
           (if sec \<le> 5 then ''Just now''
            else numToString sec @ (if sec = 1 then '' second ago'' else '' seconds ago''))
         else if mi < 60 then
           numToString mi @ (if mi = 1 then '' minute ago'' else '' minutes ago'')
         else if h < 24 then
           numToString h @ (if h = 1 then '' hour ago'' else '' hours ago'')
         else if d \<le> 2 then
           numToString d @ (if d = 1 then '' day ago'' else '' days ago'')
         else (case X of Inl error \<Rightarrow> s | Inr localized \<Rightarrow> localized))"
  by (simp add: agoPhrase_def)

text \<open>
  Claim C1. For an input that passes the guard and parses to a valid instant (a past one
  in particular), the elapsed time is taken in whole seconds, \<open>(now - instant) div 1000\<close>,
  minutes \<open>seconds div 60\<close>, hours \<open>minutes div 60\<close> and days \<open>hours div 24\<close>, and the
  first band that applies gives the result: below 60 seconds \<^verbatim>\<open>Just now\<close> up to 5 and
  the count of seconds otherwise; below 60 minutes the count of minutes; below 24 hours
  the count of hours; up to 2 days the count of days, each with the singular exactly for
  the count 1; otherwise the localized date, whose year is shown exactly when the local
  year of the instant differs from the current local year.
\<close>

theorem formatLastActivity_bands:
  assumes "lastActivityStr \<noteq> ''''" "lastActivityStr \<noteq> ''Unknown''"
    "lastActivityStr \<noteq> ''Never''"
    and "dateParse rt lastActivityStr = Some time"
  shows "formatLastActivity rt lastActivityStr =
     (let seconds = (currentTime rt - time) div 1000;
          minutes = seconds div 60;
          hours = minutes div 60;
          days = hours div 24
      in if seconds < 60 then
           (if seconds \<le> 5 then ''Just now''
            else numToString seconds @ (if seconds = 1 then '' second ago'' else '' seconds ago''))
         else if minutes < 60 then
           numToString minutes @ (if minutes = 1 then '' minute ago'' else '' minutes ago'')
         else if hours < 24 then
           numToString hours @ (if hours = 1 then '' hour ago'' else '' hours ago'')
         else if days \<le> 2 then
           numToString days @ (if days = 1 then '' day ago'' else '' days ago'')
         else (case toLocaleString rt time
                      (getFullYear rt time \<noteq> getFullYear rt (currentTime rt)) of
                 Inl error \<Rightarrow> lastActivityStr
               | Inr localized \<Rightarrow> localized))"
  unfolding formatLastActivity_parsed[OF assms(1-3)] assms(4) relativeTimeOf_def Let_def
    option.case
  by (rule bands_result)

theorem formatLastActivity_bands_witness:
  "''2025-12-22T06:35:30Z'' \<noteq> '''' \<and> ''2025-12-22T06:35:30Z'' \<noteq> ''Unknown''
   \<and> ''2025-12-22T06:35:30Z'' \<noteq> ''Never''
   \<and> dateParse (sampleRuntime 1766385375000) ''2025-12-22T06:35:30Z'' = Some 1766385330000
   \<and> (1766385330000 :: int) \<le> currentTime (sampleRuntime 1766385375000)
   \<and> formatLastActivity (sampleRuntime 1766385375000) ''2025-12-22T06:35:30Z''
       = ''45 seconds ago''"
proof -
  have p: "dateParse (sampleRuntime 1766385375000) ''2025-12-22T06:35:30Z'' = Some 1766385330000"
    by code_simp
  have c: "currentTime (sampleRuntime 1766385375000) = 1766385375000"
    by (simp add: sampleRuntime_def)
  have n: "(1766385330000 :: int) \<le> currentTime (sampleRuntime 1766385375000)"
    by (simp add: c)
  have v: "numToString 45 = ''45''" by code_simp
  have "formatLastActivity (sampleRuntime 1766385375000) ''2025-12-22T06:35:30Z''
       = ''45 seconds ago''"
    using formatLastActivity_bands[OF _ _ _ p] by (simp add: c v)
  then show ?thesis using p n by simp
qed

text \<open>
  Claim C9. In \<^verbatim>\<open>formatLastActivity\<close> the branch for inputs containing \<^verbatim>\<open>T\<close> or
  \<^verbatim>\<open>Z\<close> and the fallback branch call the same constructor, so the function equals,
  on every environment and every input, the simplified version that parses every input
  past the guard without the test.
\<close>

theorem formatLastActivity_iso_test_redundant:
  "formatLastActivity rt lastActivityStr = formatLastActivity_simplified rt lastActivityStr"
  by (simp add: formatLastActivity_def formatLastActivity_simplified_def
      formatLastActivity_try_def)

text \<open>
  Claim C10. An input that passes the guard and parses to an instant strictly after the
  current time, by any amount, gives \<^verbatim>\<open>Just now\<close>: the elapsed seconds are negative,
  below 60 and not above 5.
\<close>

theorem formatLastActivity_future:
  assumes "lastActivityStr \<noteq> ''''" "lastActivityStr \<noteq> ''Unknown''"
    "lastActivityStr \<noteq> ''Never''"
    and "dateParse rt lastActivityStr = Some time"
    and "currentTime rt < time"
  shows "formatLastActivity rt lastActivityStr = ''Just now''"
proof -
  have "currentTime rt - time < 0" using assms(5) by simp
  then have "(currentTime rt - time) div 1000 < 0" by (simp add: div_neg_pos_less0)
  then show ?thesis
    using assms(1-4) by (simp add: formatLastActivity_parsed relativeTimeOf_def Let_def)
qed

theorem formatLastActivity_future_witness:
  "''2026-12-19T18:31:45Z'' \<noteq> '''' \<and> ''2026-12-19T18:31:45Z'' \<noteq> ''Unknown''
   \<and> ''2026-12-19T18:31:45Z'' \<noteq> ''Never''
   \<and> dateParse (sampleRuntime 1766385375000) ''2026-12-19T18:31:45Z'' = Some 1797705105000
   \<and> currentTime (sampleRuntime 1766385375000) < 1797705105000
   \<and> formatLastActivity (sampleRuntime 1766385375000) ''2026-12-19T18:31:45Z'' = ''Just now''"
proof -
  have p: "dateParse (sampleRuntime 1766385375000) ''2026-12-19T18:31:45Z'' = Some 1797705105000"
    by code_simp
  have n: "currentTime (sampleRuntime 1766385375000) < 1797705105000"
    by (simp add: sampleRuntime_def)
  show ?thesis
    using formatLastActivity_future[OF _ _ _ p n] p n by simp
qed

section \<open>Guards and unparseable input\<close>

lemma formatLocalTime_guarded:
  assumes "timestamp \<noteq> ''''" "timestamp \<noteq> ''Unknown''" "timestamp \<noteq> ''Never''"
    "timestamp \<noteq> ''Recent''"
  shows "formatLocalTime rt (Str timestamp) =
     (case formatLocalTime_try rt timestamp of Inl error \<Rightarrow> timestamp | Inr result \<Rightarrow> result)"
  using assms by (simp add: formatLocalTime_def)

lemma formatLocalDateTime_guarded:
  assumes "timestamp \<noteq> ''''" "timestamp \<noteq> ''Unknown''" "timestamp \<noteq> ''Never''"
  shows "formatLocalDateTime rt (Str timestamp) =
     (case formatLocalDateTime_try rt timestamp of
        Inl error \<Rightarrow> timestamp | Inr result \<Rightarrow> result)"
  using assms by (simp add: formatLocalDateTime_def)

lemma Recent_no_shape:
  "\<not> includes_js ''Recent'' CHR ''T''" "\<not> includes_js ''Recent'' CHR ''Z''"
  "\<not> matchesSqlShape ''Recent''"
  by (simp_all add: includes_js_def matchesSqlShape_def sqlPattern_def digits_def isDigit_def)

text \<open>
  Claim C6. The guards differ. \<^verbatim>\<open>formatLocalTime\<close> returns at once on \<^verbatim>\<open>null\<close>,
  \<^verbatim>\<open>undefined\<close>, the empty string, \<^verbatim>\<open>Unknown\<close>, \<^verbatim>\<open>Never\<close> and \<^verbatim>\<open>Recent\<close>, the
  first four giving \<^verbatim>\<open>Unknown\<close>. \<^verbatim>\<open>formatLocalDateTime\<close> guards the first five only:
  \<^verbatim>\<open>Recent\<close> goes on to the fallback parse, and is returned unchanged when the
  constructor rejects it.
\<close>

theorem sentinel_guards:
  "formatLocalTime rt Null = ''Unknown''
   \<and> formatLocalTime rt Undefined = ''Unknown''
   \<and> formatLocalTime rt (Str '''') = ''Unknown''
   \<and> formatLocalTime rt (Str ''Unknown'') = ''Unknown''
   \<and> formatLocalTime rt (Str ''Never'') = ''Never''
   \<and> formatLocalTime rt (Str ''Recent'') = ''Recent''
   \<and> formatLocalDateTime rt Null = ''Unknown''
   \<and> formatLocalDateTime rt Undefined = ''Unknown''
   \<and> formatLocalDateTime rt (Str '''') = ''Unknown''
   \<and> formatLocalDateTime rt (Str ''Unknown'') = ''Unknown''
   \<and> formatLocalDateTime rt (Str ''Never'') = ''Never''
   \<and> formatLocalDateTime rt (Str ''Recent'') =
        (case localDateTimeOf rt ''Recent'' (dateParse rt ''Recent'') of
           Inl error \<Rightarrow> ''Recent'' | Inr result \<Rightarrow> result)
   \<and> (dateParse rt ''Recent'' = None \<longrightarrow> formatLocalDateTime rt (Str ''Recent'') = ''Recent'')"
proof -
  have r: "formatLocalDateTime rt (Str ''Recent'') =
        (case localDateTimeOf rt ''Recent'' (dateParse rt ''Recent'') of
           Inl error \<Rightarrow> ''Recent'' | Inr result \<Rightarrow> result)"
    by (simp add: formatLocalDateTime_guarded formatLocalDateTime_try_def Recent_no_shape)
  have n: "dateParse rt ''Recent'' = None \<longrightarrow> formatLocalDateTime rt (Str ''Recent'') = ''Recent''"
    by (simp add: r localDateTimeOf_def)
  have t: "formatLocalTime rt Null = ''Unknown''" "formatLocalTime rt Undefined = ''Unknown''"
    "formatLocalTime rt (Str '''') = ''Unknown''" "formatLocalTime rt (Str ''Unknown'') = ''Unknown''"
    "formatLocalTime rt (Str ''Never'') = ''Never''" "formatLocalTime rt (Str ''Recent'') = ''Recent''"
    by (simp_all add: formatLocalTime_def)
  have d: "formatLocalDateTime rt Null = ''Unknown''" "formatLocalDateTime rt Undefined = ''Unknown''"
    "formatLocalDateTime rt (Str '''') = ''Unknown''"
    "formatLocalDateTime rt (Str ''Unknown'') = ''Unknown''"
    "formatLocalDateTime rt (Str ''Never'') = ''Never''"
    by (simp_all add: formatLocalDateTime_def)
  show ?thesis using r n t d by (simp only: simp_thms)
qed

theorem sentinel_guards_witness:
  "dateParse (sampleRuntime 0) ''Recent'' = None
   \<and> formatLocalDateTime (sampleRuntime 0) (Str ''Recent'') = ''Recent''
   \<and> formatLocalTime (sampleRuntime 0) (Str ''Recent'') = ''Recent''"
proof -
  have p: "dateParse (sampleRuntime 0) ''Recent'' = None" by code_simp
  show ?thesis using sentinel_guards[of "sampleRuntime 0"] p by (simp add: localDateTimeOf_def)
qed

text \<open>
  An exception raised inside a \<^verbatim>\<open>try\<close> block does not leave the function: the
  \<^verbatim>\<open>catch\<close> clause returns the input.
\<close>

lemma exception_caught:
  assumes "timestamp \<noteq> ''''"
  shows "formatLocalTime_try rt timestamp = Inl e \<Longrightarrow> formatLocalTime rt (Str timestamp) = timestamp"
    and "formatLocalDateTime_try rt timestamp = Inl e
         \<Longrightarrow> formatLocalDateTime rt (Str timestamp) = timestamp"
    and "formatLastActivity_try rt timestamp = Inl e \<Longrightarrow> timestamp \<noteq> ''Unknown''
         \<Longrightarrow> formatLastActivity rt timestamp = timestamp"
  using assms
  by (simp_all add: formatLocalTime_def formatLocalDateTime_def formatLastActivity_def)

text \<open>
  The guard of \<^verbatim>\<open>formatLastActivity\<close> answers the empty string, \<^verbatim>\<open>Unknown\<close> and
  \<^verbatim>\<open>Never\<close> by \<^verbatim>\<open>Never\<close>, in every environment and before any parse.
\<close>

lemma guard_answers_first:
  "formatLastActivity rt '''' = ''Never''"
  "formatLastActivity rt ''Unknown'' = ''Never''"
  "formatLastActivity rt ''Never'' = ''Never''"
  by (simp_all add: formatLastActivity_def)

text \<open>
  Claim C2. A string reaches the parser when the guard does not answer it: the guards
  answer the empty string and, in \<^verbatim>\<open>formatLastActivity\<close>, \<^verbatim>\<open>Unknown\<close> before any parse
  (\<open>guard_answers_first\<close>). For every string that reaches the parser, matches neither
  of the two regular expressions and is rejected by the constructor (the parsed instant
  is invalid), each of \<^verbatim>\<open>formatLocalTime\<close>, \<^verbatim>\<open>formatLocalDateTime\<close> and
  \<^verbatim>\<open>formatLastActivity\<close> returns the string unchanged. The functions are total and their
  results are strings: an exception inside a \<^verbatim>\<open>try\<close> block is the \<open>Inl\<close> branch, which
  returns the input (\<open>exception_caught\<close>).
\<close>

theorem unparseable_echoed:
  assumes "timestamp \<noteq> ''''"
    and "timestamp \<noteq> ''Unknown''"
    and "\<not> matchesSqlShape timestamp"
    and "\<not> matchesClockShape timestamp"
    and "dateParse rt timestamp = None"
  shows "formatLocalTime rt (Str timestamp) = timestamp
     \<and> formatLocalDateTime rt (Str timestamp) = timestamp
     \<and> formatLastActivity rt timestamp = timestamp"
proof -
  have a: "formatLocalTime rt (Str timestamp) = timestamp"
    using assms by (simp add: formatLocalTime_def formatLocalTime_try_def localTimeOf_def)
  have b: "formatLocalDateTime rt (Str timestamp) = timestamp"
    using assms
    by (simp add: formatLocalDateTime_def formatLocalDateTime_try_def localDateTimeOf_def)
  have c: "formatLastActivity rt timestamp = timestamp"
    using assms
    by (simp add: formatLastActivity_def formatLastActivity_try_def relativeTimeOf_def)
  show ?thesis using a b c by simp
qed

theorem unparseable_echoed_witness:
  "''garbage'' \<noteq> '''' \<and> ''garbage'' \<noteq> ''Unknown''
   \<and> \<not> matchesSqlShape ''garbage'' \<and> \<not> matchesClockShape ''garbage''
   \<and> dateParse (sampleRuntime 0) ''garbage'' = None
   \<and> formatLocalTime (sampleRuntime 0) (Str ''garbage'') = ''garbage''
   \<and> formatLocalDateTime (sampleRuntime 0) (Str ''garbage'') = ''garbage''
   \<and> formatLastActivity (sampleRuntime 0) ''garbage'' = ''garbage''"
proof -
  have s: "\<not> matchesSqlShape ''garbage''" by code_simp
  have c: "\<not> matchesClockShape ''garbage''" by code_simp
  have p: "dateParse (sampleRuntime 0) ''garbage'' = None" by code_simp
  show ?thesis using unparseable_echoed[OF _ _ s c p] s c p by simp
qed

section \<open>formatLocalTime\<close>

text \<open>
  Claim C4. For every string past the guard \<^verbatim>\<open>formatLocalTime\<close> takes the first of four
  shapes that applies: (1) the string contains \<^verbatim>\<open>T\<close> or \<^verbatim>\<open>Z\<close>: the general-purpose
  constructor; (2) else it matches the anchored pattern of \<^verbatim>\<open>YYYY-MM-DD HH:MM:SS\<close>: the
  six groups as UTC fields; (3) else it matches the anchored clock pattern: a time of day;
  (4) else the general-purpose constructor. In (2) and (3), when the inner match gives
  nothing, the string is returned unchanged. An invalid date, or an exception of the
  rendering, also returns the string. (By \<open>matchSqlParts_of_shape\<close> and
  \<open>matchClockParts_of_shape\<close> the inner match cannot fail once the outer test has
  succeeded; the equation keeps the case as the code has it.)
\<close>

theorem formatLocalTime_precedence:
  assumes "timestamp \<noteq> ''''" "timestamp \<noteq> ''Unknown''" "timestamp \<noteq> ''Never''"
    "timestamp \<noteq> ''Recent''"
  shows "formatLocalTime rt (Str timestamp) =
     (let rendered = (\<lambda>date. case date of
                         None \<Rightarrow> timestamp
                       | Some time \<Rightarrow>
                           (case toLocaleTimeString rt time of
                              Inl error \<Rightarrow> timestamp | Inr clock \<Rightarrow> clock))
      in if CHR ''T'' \<in> set timestamp \<or> CHR ''Z'' \<in> set timestamp then
           rendered (dateParse rt timestamp)
         else if matchesSqlShape timestamp then
           (case matchSqlParts timestamp of
              None \<Rightarrow> timestamp
            | Some parts \<Rightarrow>
                rendered (Date_UTC (parseInt (parts ! 1)) (parseInt (parts ! 2) - 1)
                            (parseInt (parts ! 3)) (parseInt (parts ! 4))
                            (parseInt (parts ! 5)) (parseInt (parts ! 6))))
         else if matchesClockShape timestamp then
           (case matchClockParts timestamp of
              None \<Rightarrow> timestamp
            | Some timeMatch \<Rightarrow>
                (let h = parseInt (timeMatch ! 1);
                     pm = (toUpperCase (timeMatch ! 3) = ''PM'');
                     am = (toUpperCase (timeMatch ! 3) = ''AM'');
                     hours = (if pm then (if h = 12 then 12 else h + 12)
                              else if am \<and> h = 12 then 0 else h);
                     now = currentTime rt
                 in rendered (Date_UTC (getUTCFullYear now) (getUTCMonth now) (getUTCDate now)
                                hours (parseInt (timeMatch ! 2)) 0)))
         else rendered (dateParse rt timestamp))"
proof -
  note main = formatLocalTime_guarded[OF assms, of rt]
  consider (iso) "CHR ''T'' \<in> set timestamp \<or> CHR ''Z'' \<in> set timestamp"
    | (sql) "\<not> (CHR ''T'' \<in> set timestamp \<or> CHR ''Z'' \<in> set timestamp)"
        "matchesSqlShape timestamp"
    | (clock) "\<not> (CHR ''T'' \<in> set timestamp \<or> CHR ''Z'' \<in> set timestamp)"
        "\<not> matchesSqlShape timestamp" "matchesClockShape timestamp"
    | (fallback) "\<not> (CHR ''T'' \<in> set timestamp \<or> CHR ''Z'' \<in> set timestamp)"
        "\<not> matchesSqlShape timestamp" "\<not> matchesClockShape timestamp"
    by blast
  then show ?thesis
  proof cases
    case iso
    then show ?thesis
      unfolding main
      by (auto simp: formatLocalTime_try_def includes_js_def localTimeOf_def Let_def
          split: option.splits sum.splits)
  next
    case sql
    then show ?thesis
      unfolding main
      by (auto simp: formatLocalTime_try_def includes_js_def localTimeOf_def Let_def
          split: option.splits sum.splits)
  next
    case clock
    then show ?thesis
      unfolding main
      by (auto simp: formatLocalTime_try_def includes_js_def localTimeOf_def Let_def
          split: option.splits sum.splits)
  next
    case fallback
    then show ?thesis
      unfolding main
      by (auto simp: formatLocalTime_try_def includes_js_def localTimeOf_def Let_def
          split: option.splits sum.splits)
  qed
qed

theorem formatLocalTime_precedence_witness:
  "''7:01 pm'' \<noteq> '''' \<and> ''7:01 pm'' \<noteq> ''Unknown'' \<and> ''7:01 pm'' \<noteq> ''Never''
   \<and> ''7:01 pm'' \<noteq> ''Recent''
   \<and> formatLocalTime (sampleRuntime 1766385375000) (Str ''2025-12-22T06:36:15Z'') = ''06:36 AM''
   \<and> formatLocalTime (sampleRuntime 1766385375000) (Str ''2025-12-22 18:36:15'') = ''06:36 PM''
   \<and> formatLocalTime (sampleRuntime 1766385375000) (Str ''7:01 pm'') = ''07:01 PM''
   \<and> formatLocalTime (sampleRuntime 1766385375000) (Str ''garbage'') = ''garbage''"
proof -
  have a: "formatLocalTime (sampleRuntime 1766385375000) (Str ''2025-12-22T06:36:15Z'') = ''06:36 AM''"
    by (subst formatLocalTime_precedence) (simp, simp, simp, simp, code_simp)
  have b: "formatLocalTime (sampleRuntime 1766385375000) (Str ''2025-12-22 18:36:15'') = ''06:36 PM''"
    by (subst formatLocalTime_precedence) (simp, simp, simp, simp, code_simp)
  have c: "formatLocalTime (sampleRuntime 1766385375000) (Str ''7:01 pm'') = ''07:01 PM''"
    by (subst formatLocalTime_precedence) (simp, simp, simp, simp, code_simp)
  have d: "formatLocalTime (sampleRuntime 1766385375000) (Str ''garbage'') = ''garbage''"
    by (subst formatLocalTime_precedence) (simp, simp, simp, simp, code_simp)
  show ?thesis using a b c d by simp
qed

text \<open>
  Claim C5. A clock text (one or two digits, a colon, two digits, an optional white-space
  character, AM or PM in either case) is read as that time of day on the current UTC
  date: the instant is \<^verbatim>\<open>Date.UTC\<close> of the UTC year, month and day of \<^verbatim>\<open>now\<close>, the hour
  converted by "12 AM is 0, 12 PM stays 12, PM adds 12 to any other hour", the minutes,
  and 0 seconds; the result is the local clock time of that instant. For a clock after
  1970 the instant is the start of the current UTC day plus those hours and minutes.
\<close>

theorem formatLocalTime_clock_text:
  assumes "length hh = 1 \<or> length hh = 2" "list_all isDigit hh"
    "length mm = 2" "list_all isDigit mm"
    "sp = [] \<or> sp \<in> set whiteSpace" "a \<in> set ''AaPp''" "m \<in> set ''Mm''"
  shows "let timestamp = hh @ '':'' @ mm @ sp @ [a, m];
             now = currentTime rt;
             h = parseInt hh;
             hours = (if a = CHR ''P'' \<or> a = CHR ''p'' then (if h = 12 then 12 else h + 12)
                      else (if h = 12 then 0 else h));
             instant = Date_UTC (getUTCFullYear now) (getUTCMonth now) (getUTCDate now)
                         hours (parseInt mm) 0
         in formatLocalTime rt (Str timestamp) =
              (case instant of
                 None \<Rightarrow> timestamp
               | Some time \<Rightarrow>
                   (case toLocaleTimeString rt time of
                      Inl error \<Rightarrow> timestamp | Inr clock \<Rightarrow> clock))
            \<and> (0 \<le> now \<longrightarrow>
                 instant = TimeClip (Day now * msPerDay + hours * msPerHour
                                     + parseInt mm * msPerMinute))"
proof -
  define ts where "ts = hh @ '':'' @ mm @ sp @ [a, m]"
  have ne: "hh \<noteq> []" using assms(1) by auto
  have guard: "ts \<noteq> '''' \<and> ts \<noteq> ''Unknown'' \<and> ts \<noteq> ''Never'' \<and> ts \<noteq> ''Recent''"
    unfolding ts_def by (rule clock_text_not_sentinel[OF ne assms(2)])
  have noTZ: "\<not> includes_js ts CHR ''T'' \<and> \<not> includes_js ts CHR ''Z''"
    unfolding ts_def by (rule clock_text_no_TZ[OF assms(2) assms(4-7)])
  have noSql: "\<not> matchesSqlShape ts"
    unfolding ts_def by (rule clock_text_not_sql[OF assms(1)])
  have pat: "clockPattern toEnd ts = Some ([ts, hh, mm, [a, m]], [])" for toEnd
    unfolding ts_def by (rule clockPattern_text[OF assms])
  have shape: "matchesClockShape ts"
    by (simp add: matchesClockShape_def pat)
  have parts: "matchClockParts ts = Some [ts, hh, mm, [a, m]]"
    using search_first[of "clockPattern False" ts "([ts, hh, mm, [a, m]], [])"]
    by (simp add: matchClockParts_def pat)
  have body: "formatLocalTime_try rt ts =
      localTimeOf rt ts
        (Date_UTC (getUTCFullYear (currentTime rt)) (getUTCMonth (currentTime rt))
           (getUTCDate (currentTime rt))
           (if a = CHR ''P'' \<or> a = CHR ''p''
            then (if parseInt hh = 12 then 12 else parseInt hh + 12)
            else (if parseInt hh = 12 then 0 else parseInt hh))
           (parseInt mm) 0)"
    using noTZ noSql shape
    by (simp add: formatLocalTime_try_def parts Let_def toUpperCase_period[OF assms(6,7)])
  have main: "formatLocalTime rt (Str ts) =
      (case formatLocalTime_try rt ts of Inl error \<Rightarrow> ts | Inr result \<Rightarrow> result)"
    using guard by (simp add: formatLocalTime_guarded)
  show ?thesis
    unfolding Let_def ts_def[symmetric] main body
    by (auto simp: localTimeOf_def Date_UTC_today split: option.splits sum.splits)
qed

theorem formatLocalTime_clock_text_witness:
  "list_all isDigit ''7'' \<and> list_all isDigit ''01'' \<and> '' '' \<in> set whiteSpace
   \<and> CHR ''p'' \<in> set ''AaPp'' \<and> CHR ''m'' \<in> set ''Mm''
   \<and> (0::int) \<le> currentTime (sampleRuntime 1766385375000)
   \<and> Date_UTC (getUTCFullYear 1766385375000) (getUTCMonth 1766385375000)
        (getUTCDate 1766385375000) 19 1 0 = Some 1766430060000
   \<and> Day 1766385375000 * msPerDay + 19 * msPerHour + 1 * msPerMinute = 1766430060000
   \<and> formatLocalTime (sampleRuntime 1766385375000) (Str ''7:01 pm'') = ''07:01 PM''"
proof -
  have g: "list_all isDigit ''7''" "list_all isDigit ''01''" by (simp_all add: isDigit_def)
  have w: "'' '' \<in> set whiteSpace" by (simp add: whiteSpace_def)
  have l: "CHR ''p'' \<in> set ''AaPp''" "CHR ''m'' \<in> set ''Mm''" by simp_all
  have v: "parseInt ''7'' = 7" "parseInt ''01'' = 1" by (simp_all add: parseInt_def digitVal_def)
  have n: "currentTime (sampleRuntime 1766385375000) = 1766385375000"
    by (simp add: sampleRuntime_def)
  have u: "Date_UTC (getUTCFullYear 1766385375000) (getUTCMonth 1766385375000)
        (getUTCDate 1766385375000) 19 1 0 = Some 1766430060000" by code_simp
  have dd: "Day 1766385375000 * msPerDay + 19 * msPerHour + 1 * msPerMinute = 1766430060000"
    by code_simp
  have r: "toLocaleTimeString (sampleRuntime 1766385375000) 1766430060000 = Inr ''07:01 PM''"
    by code_simp
  have "formatLocalTime (sampleRuntime 1766385375000) (Str ''7:01 pm'') = ''07:01 PM''"
    using formatLocalTime_clock_text[OF _ g(1) _ g(2) _ l, of "'' ''" "sampleRuntime 1766385375000"] w
    by (simp add: Let_def v n u r)
  then show ?thesis using g w l n u dd by simp
qed

section \<open>formatLocalDateTime\<close>

lemma localDateTimeOf_returns: "\<exists>r. localDateTimeOf rt timestamp date = Inr r"
  by (cases date) (simp_all add: localDateTimeOf_def Let_def)

text \<open>
  Claim C3, as amended. On a text of the layout \<^verbatim>\<open>YYYY-MM-DD HH:MM:SS\<close> (six groups of
  digits) \<^verbatim>\<open>formatLocalDateTime\<close> renders the instant \<^verbatim>\<open>Date.UTC (year, month - 1, day,
  hours, minutes, seconds)\<close> of the six numbers. When they are a date and a time of day in
  range, from the year 100 on, that instant is valid and its UTC calendar fields are the
  six numbers. When moreover the year is at least 1000 and the local zone is UTC, the
  result is the input text.
\<close>

theorem formatLocalDateTime_sql_text:
  assumes "length y = 4" "list_all isDigit y" "length mo = 2" "list_all isDigit mo"
    "length d = 2" "list_all isDigit d" "length h = 2" "list_all isDigit h"
    "length mi = 2" "list_all isDigit mi" "length se = 2" "list_all isDigit se"
  shows "let timestamp = y @ ''-'' @ mo @ ''-'' @ d @ '' '' @ h @ '':'' @ mi @ '':'' @ se;
             year = parseInt y; month = parseInt mo; day = parseInt d;
             hours = parseInt h; minutes = parseInt mi; seconds = parseInt se;
             instant = Date_UTC year (month - 1) day hours minutes seconds;
             inRange = (1 \<le> month \<and> month \<le> 12 \<and> 1 \<le> day
                        \<and> day \<le> daysInMonth year (month - 1)
                        \<and> hours \<le> 23 \<and> minutes \<le> 59 \<and> seconds \<le> 59)
         in Inr (formatLocalDateTime rt (Str timestamp)) = localDateTimeOf rt timestamp instant
            \<and> (100 \<le> year \<and> inRange \<longrightarrow>
                 (\<exists>t. instant = Some t \<and> YearFromTime t = year \<and> MonthFromTime t = month - 1
                      \<and> DateFromTime t = day \<and> HourFromTime t = hours
                      \<and> MinFromTime t = minutes \<and> SecFromTime t = seconds))
            \<and> (1000 \<le> year \<and> inRange \<and> localTZA rt = (\<lambda>t. 0) \<longrightarrow>
                 formatLocalDateTime rt (Str timestamp) = timestamp)"
proof -
  define ts where "ts = y @ ''-'' @ mo @ ''-'' @ d @ '' '' @ h @ '':'' @ mi @ '':'' @ se"
  define instant where "instant = Date_UTC (parseInt y) (parseInt mo - 1) (parseInt d)
      (parseInt h) (parseInt mi) (parseInt se)"
  have ne: "y \<noteq> []" using assms(1) by auto
  have guard: "ts \<noteq> '''' \<and> ts \<noteq> ''Unknown'' \<and> ts \<noteq> ''Never'' \<and> ts \<noteq> ''Recent''"
    unfolding ts_def by (rule clock_text_not_sentinel[OF ne assms(2)])
  have noTZ: "\<not> includes_js ts CHR ''T'' \<and> \<not> includes_js ts CHR ''Z''"
    unfolding ts_def
    by (rule sql_text_no_TZ[OF assms(2) assms(4) assms(6) assms(8) assms(10) assms(12)])
  have pat: "sqlPattern ts = Some ([ts, y, mo, d, h, mi, se], [])"
    using sqlPattern_text[OF assms, of "[]"] by (simp add: ts_def)
  have shape: "matchesSqlShape ts" by (simp add: matchesSqlShape_def pat)
  have parts: "matchSqlParts ts = Some [ts, y, mo, d, h, mi, se]"
    using search_first[of sqlPattern ts "([ts, y, mo, d, h, mi, se], [])"]
    by (simp add: matchSqlParts_def pat)
  have body: "formatLocalDateTime_try rt ts = localDateTimeOf rt ts instant"
    using noTZ shape by (simp add: formatLocalDateTime_try_def parts instant_def)
  obtain r where r: "localDateTimeOf rt ts instant = Inr r"
    using localDateTimeOf_returns by blast
  have main: "formatLocalDateTime rt (Str ts) = r"
    using guard by (simp add: formatLocalDateTime_guarded body r)
  have first: "Inr (formatLocalDateTime rt (Str ts)) = localDateTimeOf rt ts instant"
    by (simp add: main r)
  note nn = parseInt_nonneg[OF assms(8)] parseInt_nonneg[OF assms(10)]
    parseInt_nonneg[OF assms(12)]
  have fields: "\<exists>t. instant = Some t \<and> YearFromTime t = parseInt y
         \<and> MonthFromTime t = parseInt mo - 1 \<and> DateFromTime t = parseInt d
         \<and> HourFromTime t = parseInt h \<and> MinFromTime t = parseInt mi
         \<and> SecFromTime t = parseInt se"
    if "100 \<le> parseInt y" "1 \<le> parseInt mo" "parseInt mo \<le> 12" "1 \<le> parseInt d"
      "parseInt d \<le> daysInMonth (parseInt y) (parseInt mo - 1)"
      "parseInt h \<le> 23" "parseInt mi \<le> 59" "parseInt se \<le> 59"
    unfolding instant_def
    using that nn parseInt_four(1)[OF assms(1,2)] by (intro Date_UTC_fields) simp_all
  have again: "formatLocalDateTime rt (Str ts) = ts"
    if "1000 \<le> parseInt y" "1 \<le> parseInt mo" "parseInt mo \<le> 12" "1 \<le> parseInt d"
      "parseInt d \<le> daysInMonth (parseInt y) (parseInt mo - 1)"
      "parseInt h \<le> 23" "parseInt mi \<le> 59" "parseInt se \<le> 59"
      "localTZA rt = (\<lambda>t. 0)"
  proof -
    have "100 \<le> parseInt y" using that(1) by simp
    from fields[OF this that(2-8)] obtain t where
      t: "instant = Some t" "YearFromTime t = parseInt y" "MonthFromTime t = parseInt mo - 1"
        "DateFromTime t = parseInt d" "HourFromTime t = parseInt h"
        "MinFromTime t = parseInt mi" "SecFromTime t = parseInt se"
      by blast
    have loc: "LocalTime rt t = t" by (simp add: LocalTime_def that(9))
    have yy: "numToString (parseInt y) = y"
      using numToString_parseInt[OF assms(2) ne parseInt_four(2)[OF assms(1,2) that(1)]]
      by simp
    have "localDateTimeOf rt ts instant = Inr ts"
      by (simp add: localDateTimeOf_def t Let_def getFullYear_def getMonth_def getDate_def
          getHours_def getMinutes_def getSeconds_def loc yy
          pad2_parseInt[OF assms(3,4)] pad2_parseInt[OF assms(5,6)]
          pad2_parseInt[OF assms(7,8)] pad2_parseInt[OF assms(9,10)]
          pad2_parseInt[OF assms(11,12)] ts_def)
    then show ?thesis using first by simp
  qed
  show ?thesis
    unfolding Let_def ts_def[symmetric] instant_def[symmetric]
    using first fields again by blast
qed

theorem formatLocalDateTime_sql_text_witness:
  "list_all isDigit ''2025'' \<and> list_all isDigit ''12'' \<and> list_all isDigit ''22''
   \<and> list_all isDigit ''06'' \<and> list_all isDigit ''36'' \<and> list_all isDigit ''15''
   \<and> 1000 \<le> parseInt ''2025'' \<and> 1 \<le> parseInt ''12'' \<and> parseInt ''12'' \<le> 12
   \<and> 1 \<le> parseInt ''22'' \<and> parseInt ''22'' \<le> daysInMonth (parseInt ''2025'') (parseInt ''12'' - 1)
   \<and> parseInt ''06'' \<le> 23 \<and> parseInt ''36'' \<le> 59 \<and> parseInt ''15'' \<le> 59
   \<and> localTZA (sampleRuntime 0) 1766385375000 = 0
   \<and> Date_UTC 2025 11 22 6 36 15 = Some 1766385375000
   \<and> formatLocalDateTime (sampleRuntime 0) (Str ''2025-12-22 06:36:15'') = ''2025-12-22 06:36:15''"
proof -
  have g: "list_all isDigit ''2025''" "list_all isDigit ''12''" "list_all isDigit ''22''"
    "list_all isDigit ''06''" "list_all isDigit ''36''" "list_all isDigit ''15''"
    by (simp_all add: isDigit_def)
  have v: "parseInt ''2025'' = 2025" "parseInt ''12'' = 12" "parseInt ''22'' = 22"
    "parseInt ''06'' = 6" "parseInt ''36'' = 36" "parseInt ''15'' = 15"
    by (simp_all add: parseInt_def digitVal_def)
  have dim: "daysInMonth 2025 11 = 31" by (simp add: daysInMonth_def)
  have z: "localTZA (sampleRuntime 0) = (\<lambda>t. 0)" by (simp add: sampleRuntime_def)
  have u: "Date_UTC 2025 11 22 6 36 15 = Some 1766385375000" by code_simp
  have "formatLocalDateTime (sampleRuntime 0) (Str ''2025-12-22 06:36:15'') = ''2025-12-22 06:36:15''"
    using formatLocalDateTime_sql_text[OF _ g(1) _ g(2) _ g(3) _ g(4) _ g(5) _ g(6),
        of "sampleRuntime 0"]
    by (simp add: Let_def v dim z)
  then show ?thesis using g v dim z u by simp
qed

text \<open>
  The round trip does not hold for every text of the layout: \<^verbatim>\<open>Date.UTC\<close> carries a
  field out of range into the next unit, so the 30th of February comes back as the 2nd
  of March (the sample environment's zone is UTC).
\<close>

theorem formatLocalDateTime_overflow_not_echoed:
  "formatLocalDateTime (sampleRuntime 0) (Str ''2025-02-30 00:00:00'') = ''2025-03-02 00:00:00''
   \<and> formatLocalDateTime (sampleRuntime 0) (Str ''2025-02-30 00:00:00'') \<noteq> ''2025-02-30 00:00:00''"
  by code_simp

text \<open>
  What \<^verbatim>\<open>formatLocalDateTime\<close> renders for any valid instant, in any zone: month, day,
  hours, minutes and seconds with two digits each, and the year as its plain numeral.
\<close>

lemma localDateTimeOf_shape:
  "\<exists>mo d h mi s.
     localDateTimeOf rt timestamp (Some time) =
       Inr (numToString (getFullYear rt time) @ ''-'' @ mo @ ''-'' @ d @ '' '' @ h @ '':''
            @ mi @ '':'' @ s)
     \<and> length mo = 2 \<and> list_all isDigit mo \<and> length d = 2 \<and> list_all isDigit d
     \<and> length h = 2 \<and> list_all isDigit h \<and> length mi = 2 \<and> list_all isDigit mi
     \<and> length s = 2 \<and> list_all isDigit s"
proof -
  let ?t = "LocalTime rt time"
  let ?mo = "padStart 2 CHR ''0'' (numToString (getMonth rt time + 1))"
  let ?d = "padStart 2 CHR ''0'' (numToString (getDate rt time))"
  let ?h = "padStart 2 CHR ''0'' (numToString (getHours rt time))"
  let ?mi = "padStart 2 CHR ''0'' (numToString (getMinutes rt time))"
  let ?s = "padStart 2 CHR ''0'' (numToString (getSeconds rt time))"
  have mo: "0 \<le> getMonth rt time + 1" "getMonth rt time + 1 \<le> 99"
    using MonthFromTime_range[of ?t] by (simp_all add: getMonth_def)
  have d: "0 \<le> getDate rt time" "getDate rt time \<le> 99"
    using DateFromTime_range[of ?t] by (simp_all add: getDate_def)
  have h: "0 \<le> getHours rt time" "getHours rt time \<le> 99"
    using time_fields_range(1)[of ?t] by (simp_all add: getHours_def)
  have mi: "0 \<le> getMinutes rt time" "getMinutes rt time \<le> 99"
    using time_fields_range(2)[of ?t] by (simp_all add: getMinutes_def)
  have s: "0 \<le> getSeconds rt time" "getSeconds rt time \<le> 99"
    using time_fields_range(3)[of ?t] by (simp_all add: getSeconds_def)
  have "localDateTimeOf rt timestamp (Some time) =
       Inr (numToString (getFullYear rt time) @ ''-'' @ ?mo @ ''-'' @ ?d @ '' '' @ ?h @ '':''
            @ ?mi @ '':'' @ ?s)"
    by (simp add: localDateTimeOf_def Let_def)
  then show ?thesis
    using pad2_shape[OF mo] pad2_shape[OF d] pad2_shape[OF h] pad2_shape[OF mi] pad2_shape[OF s]
    by blast
qed

text \<open>
  Claim C7. Month, day, hours, minutes and seconds are padded to two digits
  (\<open>localDateTimeOf_shape\<close>), but the year is written as its plain numeral, which has
  four digits for the years 1000 to 9999 only (\<open>year_four_digits\<close>): the year 999
  is rendered with three.
\<close>

theorem formatLocalDateTime_year_not_padded:
  "formatLocalDateTime (sampleRuntime 0) (Str ''0999-01-01 00:00:00'') = ''999-01-01 00:00:00''"
  by code_simp

section \<open>The wrappers\<close>

text \<open>
  Claim C8. On every argument (\<^verbatim>\<open>null\<close>, \<^verbatim>\<open>undefined\<close>, sentinels, unparseable
  strings and all others) \<^verbatim>\<open>formatScreenshotTime\<close> returns what
  \<^verbatim>\<open>formatLocalDateTime\<close> returns and \<^verbatim>\<open>formatActivityTime\<close> what
  \<^verbatim>\<open>formatLocalTime\<close> returns.
\<close>

theorem wrappers_delegate:
  "formatScreenshotTime rt timestamp = formatLocalDateTime rt timestamp
   \<and> formatActivityTime rt timestamp = formatLocalTime rt timestamp"
  by (simp add: formatScreenshotTime_def formatActivityTime_def)

end
